theory Spec2Isabelle
  imports Main "HOL-Library.Word" "HOL-Library.AList" "HOL-Library.Sublist"
begin

section \<open>Go strings and the library functions the converter calls\<close>

text \<open>
  A Go string is a sequence of bytes, and so is an Isabelle \<open>string\<close> (a list of 8-bit
  \<open>char\<close>s). \<open>len(s)\<close> is \<open>length s\<close>, \<open>s[i]\<close> is a byte, \<open>s[2:]\<close> is \<open>drop 2 s\<close>.
  The functions of package \<open>strings\<close> and \<open>strconv\<close> that \<open>main.go\<close> calls are modelled
  here after their documented behaviour.
\<close>

definition HasPrefix :: "string \<Rightarrow> string \<Rightarrow> bool" where
  "HasPrefix s pre \<longleftrightarrow> take (length pre) s = pre"

definition HasSuffix :: "string \<Rightarrow> string \<Rightarrow> bool" where
  "HasSuffix s suf \<longleftrightarrow> length suf \<le> length s \<and> drop (length s - length suf) s = suf"

definition TrimPrefix :: "string \<Rightarrow> string \<Rightarrow> string" where
  "TrimPrefix s pre = (if HasPrefix s pre then drop (length pre) s else s)"

definition TrimSuffix :: "string \<Rightarrow> string \<Rightarrow> string" where
  "TrimSuffix s suf = (if HasSuffix s suf then take (length s - length suf) s else s)"

text \<open>\<open>strings.Index\<close>: the position of the first occurrence of \<open>sep\<close>, \<open>None\<close> for Go's -1.\<close>

fun Index :: "string \<Rightarrow> string \<Rightarrow> nat option" where
  "Index [] sep = (if sep = [] then Some 0 else None)"
| "Index (c # cs) sep =
     (if HasPrefix (c # cs) sep then Some 0 else map_option Suc (Index cs sep))"

definition Contains :: "string \<Rightarrow> string \<Rightarrow> bool" where
  "Contains s sub \<longleftrightarrow> Index s sub \<noteq> None"

lemma HasPrefix_length: "HasPrefix s pre \<Longrightarrow> length pre \<le> length s"
proof -
  assume "HasPrefix s pre"
  then have "length (take (length pre) s) = length pre" by (simp add: HasPrefix_def)
  then show ?thesis by simp
qed

lemma Index_bound: "Index s sep = Some m \<Longrightarrow> m + length sep \<le> length s"
proof (induction s arbitrary: m)
  case Nil
  then show ?case by (simp split: if_splits)
next
  case (Cons c cs)
  show ?case
  proof (cases "HasPrefix (c # cs) sep")
    case True
    then have "length sep \<le> length (c # cs)" by (rule HasPrefix_length)
    with True Cons.prems show ?thesis by simp
  next
    case False
    with Cons.prems obtain k where "Index cs sep = Some k" "m = Suc k" by auto
    with Cons.IH show ?thesis by auto
  qed
qed

text \<open>
  \<open>strings.Split(s, sep)\<close> cuts at every occurrence of \<open>sep\<close>, left to right, the
  occurrences not overlapping. The program only passes the non-empty literals
  \<open>"\n"\<close>, \<open>":="\<close> and \<open>","\<close>; for the empty separator Go explodes \<open>s\<close> into its UTF-8
  sequences, which is written here for the single-byte case only.
\<close>

function Split :: "string \<Rightarrow> string \<Rightarrow> string list" where
  "Split s sep =
     (if sep = [] then map (\<lambda>c. [c]) s
      else case Index s sep of
             None \<Rightarrow> [s]
           | Some m \<Rightarrow> take m s # Split (drop (m + length sep) s) sep)"
  by pat_completeness auto
termination
proof (relation "measure (\<lambda>(s, sep). length s)")
  show "wf (measure (\<lambda>(s, sep). length s))" by simp
next
  fix s sep :: string and m :: nat
  assume "sep \<noteq> []" and "Index s sep = Some m"
  then have "m + length sep \<le> length s" and "0 < length sep"
    by (auto dest: Index_bound)
  then show "((drop (m + length sep) s, sep), (s, sep)) \<in> measure (\<lambda>(s, sep). length s)"
    by (cases s) auto
qed

declare Split.simps [simp del]

text \<open>\<open>strings.SplitN(s, sep, n)\<close> for \<open>n \<ge> 0\<close> and a non-empty separator: at most \<open>n\<close> pieces,
  the last one the unsplit remainder.\<close>

fun SplitN :: "string \<Rightarrow> string \<Rightarrow> nat \<Rightarrow> string list" where
  "SplitN s sep 0 = []"
| "SplitN s sep (Suc 0) = [s]"
| "SplitN s sep (Suc (Suc n)) =
     (case Index s sep of
        None \<Rightarrow> [s]
      | Some m \<Rightarrow> take m s # SplitN (drop (m + length sep) s) sep (Suc n))"

subsection \<open>White space\<close>

text \<open>
  \<open>strings.TrimSpace\<close> and \<open>strings.Fields\<close> use \<open>unicode.IsSpace\<close>: the runes
  U+0009 to U+000D, U+0020, U+0085, U+00A0, U+1680, U+2000 to U+200A, U+2028, U+2029,
  U+202F, U+205F and U+3000. On the bytes of a string these are exactly the following
  UTF-8 sequences. None of them starts with a continuation byte, so a sequence found at
  some position is always a whole rune for Go's decoder, and a byte that starts none of
  them belongs to a rune that is not white space (an invalid byte decodes to U+FFFD).
\<close>

definition white_space :: "string list" where
  "white_space =
    [[CHR 0x09], [CHR 0x0A], [CHR 0x0B], [CHR 0x0C], [CHR 0x0D], [CHR 0x20],
     [CHR 0xC2, CHR 0x85], [CHR 0xC2, CHR 0xA0],
     [CHR 0xE1, CHR 0x9A, CHR 0x80],
     [CHR 0xE2, CHR 0x80, CHR 0x80], [CHR 0xE2, CHR 0x80, CHR 0x81],
     [CHR 0xE2, CHR 0x80, CHR 0x82], [CHR 0xE2, CHR 0x80, CHR 0x83],
     [CHR 0xE2, CHR 0x80, CHR 0x84], [CHR 0xE2, CHR 0x80, CHR 0x85],
     [CHR 0xE2, CHR 0x80, CHR 0x86], [CHR 0xE2, CHR 0x80, CHR 0x87],
     [CHR 0xE2, CHR 0x80, CHR 0x88], [CHR 0xE2, CHR 0x80, CHR 0x89],
     [CHR 0xE2, CHR 0x80, CHR 0x8A],
     [CHR 0xE2, CHR 0x80, CHR 0xA8], [CHR 0xE2, CHR 0x80, CHR 0xA9],
     [CHR 0xE2, CHR 0x80, CHR 0xAF], [CHR 0xE2, CHR 0x81, CHR 0x9F],
     [CHR 0xE3, CHR 0x80, CHR 0x80]]"

text \<open>The width in bytes of the white-space rune that \<open>s\<close> starts with (ends with), 0 if
  it starts (ends) with none.\<close>

definition leading_space :: "string \<Rightarrow> nat" where
  "leading_space s =
     (case filter (HasPrefix s) white_space of [] \<Rightarrow> 0 | w # _ \<Rightarrow> length w)"

definition trailing_space :: "string \<Rightarrow> nat" where
  "trailing_space s =
     (case filter (HasSuffix s) white_space of [] \<Rightarrow> 0 | w # _ \<Rightarrow> length w)"

lemma white_space_nonempty: "w \<in> set white_space \<Longrightarrow> w \<noteq> []"
  by (auto simp: white_space_def)

lemma leading_space_le: "leading_space s \<le> length s"
proof (cases "filter (HasPrefix s) white_space")
  case Nil
  then show ?thesis by (simp add: leading_space_def)
next
  case (Cons w ws)
  then have "w \<in> set (filter (HasPrefix s) white_space)" by simp
  then have "HasPrefix s w" by simp
  then have "length w \<le> length s" by (rule HasPrefix_length)
  with Cons show ?thesis by (simp add: leading_space_def)
qed

lemma trailing_space_le: "trailing_space s \<le> length s"
proof (cases "filter (HasSuffix s) white_space")
  case Nil
  then show ?thesis by (simp add: trailing_space_def)
next
  case (Cons w ws)
  then have "w \<in> set (filter (HasSuffix s) white_space)" by simp
  then have "length w \<le> length s" by (simp add: HasSuffix_def)
  with Cons show ?thesis by (simp add: trailing_space_def)
qed

function TrimLeft :: "string \<Rightarrow> string" where
  "TrimLeft s = (if leading_space s = 0 then s else TrimLeft (drop (leading_space s) s))"
  by pat_completeness auto
termination
proof (relation "measure length")
  show "wf (measure length)" by simp
next
  fix s :: string
  assume "leading_space s \<noteq> 0"
  moreover have "leading_space s \<le> length s" by (rule leading_space_le)
  ultimately show "(drop (leading_space s) s, s) \<in> measure length" by simp
qed

function TrimRight :: "string \<Rightarrow> string" where
  "TrimRight s =
     (if trailing_space s = 0 then s else TrimRight (take (length s - trailing_space s) s))"
  by pat_completeness auto
termination
proof (relation "measure length")
  show "wf (measure length)" by simp
next
  fix s :: string
  assume "trailing_space s \<noteq> 0"
  moreover have "trailing_space s \<le> length s" by (rule trailing_space_le)
  ultimately show "(take (length s - trailing_space s) s, s) \<in> measure length" by simp
qed

declare TrimLeft.simps [simp del] TrimRight.simps [simp del]

definition TrimSpace :: "string \<Rightarrow> string" where
  "TrimSpace s = TrimRight (TrimLeft s)"

text \<open>\<open>strings.Fields\<close>: the maximal runs of bytes between white-space runes; \<open>cur\<close> is the
  field being read.\<close>

function fields_from :: "string \<Rightarrow> string \<Rightarrow> string list" where
  "fields_from cur s =
     (if s = [] then (if cur = [] then [] else [cur])
      else if leading_space s = 0 then fields_from (cur @ [hd s]) (tl s)
      else (if cur = [] then [] else [cur]) @ fields_from [] (drop (leading_space s) s))"
  by pat_completeness auto
termination
proof (relation "measure (\<lambda>(cur, s). length s)")
  show "wf (measure (\<lambda>(cur, s). length s))" by simp
next
  fix cur s :: string
  assume "s \<noteq> []"
  then show "((cur @ [hd s], tl s), (cur, s)) \<in> measure (\<lambda>(cur, s). length s)" by simp
next
  fix cur s :: string
  assume "s \<noteq> []" and "leading_space s \<noteq> 0"
  then show "(([], drop (leading_space s) s), (cur, s)) \<in> measure (\<lambda>(cur, s). length s)"
    by simp
qed

declare fields_from.simps [simp del]

definition Fields :: "string \<Rightarrow> string list" where
  "Fields s = fields_from [] s"

subsection \<open>Numbers\<close>

text \<open>
  \<open>strconv.ParseUint(s, base, bitSize)\<close> for an explicit base: bytes are read left to right;
  a byte that is no digit of the base is a syntax error, a value above \<open>2^bitSize - 1\<close> a
  range error, whichever comes first. Underscores are only allowed for base 0, which the
  program never passes.
\<close>

datatype num_err = ErrSyntax | ErrRange

definition digit_val :: "char \<Rightarrow> int option" where
  "digit_val c =
     (let n = (of_char c :: int) in
      if 48 \<le> n \<and> n \<le> 57 then Some (n - 48)
      else if 97 \<le> n \<and> n \<le> 122 then Some (n - 97 + 10)
      else if 65 \<le> n \<and> n \<le> 90 then Some (n - 65 + 10)
      else None)"

fun parse_digits :: "int \<Rightarrow> int \<Rightarrow> int \<Rightarrow> string \<Rightarrow> num_err + int" where
  "parse_digits base maxVal n [] = Inr n"
| "parse_digits base maxVal n (c # cs) =
     (case digit_val c of
        None \<Rightarrow> Inl ErrSyntax
      | Some d \<Rightarrow>
          if d \<ge> base then Inl ErrSyntax
          else if n * base + d > maxVal then Inl ErrRange
          else parse_digits base maxVal (n * base + d) cs)"

definition ParseUint :: "string \<Rightarrow> int \<Rightarrow> nat \<Rightarrow> num_err + int" where
  "ParseUint s base bitSize =
     (if s = [] then Inl ErrSyntax else parse_digits base (2 ^ bitSize - 1) 0 s)"

text \<open>
  \<open>strconv.ParseInt(s, base, bitSize)\<close>: an optional sign, then \<open>ParseUint\<close>; the value
  must lie in \<open>-2^(bitSize-1) .. 2^(bitSize-1) - 1\<close>. The result is the mathematical
  integer; the error carries the function name and the input, as \<open>*strconv.NumError\<close> does.
\<close>

datatype error =
    ErrInvalidSyntax
  | ErrUndefinedVariable
  | ErrInvalidExpression
  | InvalidName string
  | UnknownOperation string
  | EmptyString
  | NotANumber string
  | NotAString string
  | UnsupportedType string
  | NumError string string num_err
  | IOError string

definition ParseInt :: "string \<Rightarrow> int \<Rightarrow> nat \<Rightarrow> error + int" where
  "ParseInt s0 base bitSize =
     (if s0 = [] then Inl (NumError ''ParseInt'' s0 ErrSyntax)
      else
        let neg = (hd s0 = CHR ''-'');
            s = (if hd s0 = CHR ''+'' \<or> hd s0 = CHR ''-'' then tl s0 else s0);
            cutoff = (2 :: int) ^ (bitSize - 1)
        in case ParseUint s base bitSize of
             Inl ErrSyntax \<Rightarrow> Inl (NumError ''ParseInt'' s0 ErrSyntax)
           | Inl ErrRange \<Rightarrow> Inl (NumError ''ParseInt'' s0 ErrRange)
           | Inr un \<Rightarrow>
               if \<not> neg \<and> un \<ge> cutoff then Inl (NumError ''ParseInt'' s0 ErrRange)
               else if neg \<and> un > cutoff then Inl (NumError ''ParseInt'' s0 ErrRange)
               else Inr (if neg then - un else un))"

text \<open>
  Go's \<open>int\<close> is taken as 64 bits wide (the spec's data model says so): a \<open>64 word\<close>, read
  as two's complement by \<open>sint\<close>; \<open>+\<close> and \<open>-\<close> wrap around as Go's do.
  \<open>strconv.Atoi(s)\<close> is \<open>ParseInt(s, 10, 0)\<close> with the function name changed in the error
  (its fast path for short inputs gives the same results).
\<close>

type_synonym go_int = "64 word"

definition Atoi :: "string \<Rightarrow> error + go_int" where
  "Atoi s =
     (case ParseInt s 10 64 of
        Inl (NumError f n k) \<Rightarrow> Inl (NumError ''Atoi'' n k)
      | Inl e \<Rightarrow> Inl e
      | Inr i \<Rightarrow> Inr (word_of_int i))"

text \<open>Decimal rendering, as \<open>%d\<close> and \<open>%v\<close> print an integer.\<close>

function digits_of :: "int \<Rightarrow> string" where
  "digits_of n =
     (if n < 10 then [char_of (48 + n)] else digits_of (n div 10) @ [char_of (48 + n mod 10)])"
  by pat_completeness auto
termination
  by (relation "measure nat") auto

declare digits_of.simps [simp del]

definition itoa :: "int \<Rightarrow> string" where
  "itoa i = (if i < 0 then CHR ''-'' # digits_of (- i) else digits_of i)"

section \<open>The parser state\<close>

text \<open>
  \<open>p.variables\<close> is a \<open>map[string]interface{}\<close> that only ever holds an \<open>int\<close>, a
  \<open>string\<close> or a \<open>[]string\<close>. It is kept as an association list with unique keys
  (\<open>AList.update\<close> replaces in place), so that \<open>len(p.variables)\<close> can be computed;
  the program never iterates over the map, so the order of the list is never observed.
\<close>

datatype val = IntV go_int | StrV string | ArrV "string list"

record Parser =
  variables :: "(string \<times> val) list"

definition NewParser :: Parser where
  "NewParser = \<lparr>variables = []\<rparr>"

definition lookup :: "Parser \<Rightarrow> string \<Rightarrow> val option" where
  "lookup p k = map_of (variables p) k"

definition assign :: "Parser \<Rightarrow> string \<Rightarrow> val \<Rightarrow> Parser" where
  "assign p k v = p\<lparr>variables := AList.update k v (variables p)\<rparr>"

definition len_variables :: "Parser \<Rightarrow> nat" where
  "len_variables p = length (remdups (map fst (variables p)))"

text \<open>\<open>fmt.Sprintf("%v", x)\<close> for the three kinds of value; a slice of strings prints as
  \<open>[a b c]\<close>.\<close>

fun join_with :: "string \<Rightarrow> string list \<Rightarrow> string" where
  "join_with sep [] = []"
| "join_with sep [x] = x"
| "join_with sep (x # y # ys) = x @ sep @ join_with sep (y # ys)"

definition Sprint :: "val \<Rightarrow> string" where
  "Sprint v =
     (case v of
        IntV i \<Rightarrow> itoa (sint i)
      | StrV s \<Rightarrow> s
      | ArrV xs \<Rightarrow> ''['' @ join_with '' '' xs @ '']'')"

section \<open>The functions of main.go\<close>

definition dquote :: string where
  "dquote = [CHR 0x22]"

definition at_dquote :: string where
  "at_dquote = [CHR ''@'', CHR 0x22]"

definition newline :: string where
  "newline = [CHR 0x0A]"

text \<open>\<open>isValidName\<close>: the loop ranges over runes; a rune outside ASCII has only bytes from
  0x80 on, none of which is a capital letter or the underscore, so checking the bytes
  gives the same answer.\<close>

fun only_capitals :: "string \<Rightarrow> bool" where
  "only_capitals [] = True"
| "only_capitals (r # rs) =
     (if \<not> ((65 :: nat) \<le> of_char r \<and> of_char r \<le> (90 :: nat)) \<and> r \<noteq> CHR ''_'' then False
      else only_capitals rs)"

definition isValidName :: "string \<Rightarrow> bool" where
  "isValidName s = (if s = [] then False else only_capitals s)"

text \<open>\<open>parseNumber\<close> and \<open>isNumber\<close>: an \<open>0o\<close> or \<open>0O\<close> prefix selects base 8 for the rest
  of the token, anything else goes to \<open>Atoi\<close>.\<close>

definition parseNumber :: "string \<Rightarrow> error + go_int" where
  "parseNumber s =
     (if HasPrefix s ''0o'' \<or> HasPrefix s ''0O'' then
        (case ParseInt (drop 2 s) 8 64 of Inl e \<Rightarrow> Inl e | Inr i \<Rightarrow> Inr (word_of_int i))
      else Atoi s)"

definition isNumber :: "string \<Rightarrow> bool" where
  "isNumber s =
     (if HasPrefix s ''0o'' \<or> HasPrefix s ''0O'' then
        (case ParseInt (drop 2 s) 8 64 of Inl e \<Rightarrow> False | Inr i \<Rightarrow> True)
      else (case Atoi s of Inl e \<Rightarrow> False | Inr i \<Rightarrow> True))"

text \<open>\<open>getNumberValue\<close> and \<open>getStringValue\<close>: a bound token must hold the wanted type; the
  \<open>default\<close> branch of the type switch is reached by the only other type, the array.\<close>

definition getNumberValue :: "Parser \<Rightarrow> string \<Rightarrow> error + go_int" where
  "getNumberValue p token =
     (case lookup p token of
        Some (IntV v) \<Rightarrow> Inr v
      | Some (StrV v) \<Rightarrow> Inl (NotANumber token)
      | Some (ArrV v) \<Rightarrow> Inl (UnsupportedType token)
      | None \<Rightarrow> parseNumber token)"

definition getStringValue :: "Parser \<Rightarrow> string \<Rightarrow> error + string" where
  "getStringValue p token =
     (case lookup p token of
        Some (StrV v) \<Rightarrow> Inr v
      | Some (IntV v) \<Rightarrow> Inl (NotAString token)
      | Some (ArrV v) \<Rightarrow> Inl (UnsupportedType token)
      | None \<Rightarrow>
          if HasPrefix token at_dquote \<and> HasSuffix token dquote
          then Inr (TrimSuffix (TrimPrefix token at_dquote) dquote)
          else Inr token)"

definition resolveValue :: "Parser \<Rightarrow> string \<Rightarrow> error + val" where
  "resolveValue p valueStr =
     (case lookup p valueStr of
        Some v \<Rightarrow> Inr v
      | None \<Rightarrow>
          if isNumber valueStr then
            (case parseNumber valueStr of Inl e \<Rightarrow> Inl e | Inr i \<Rightarrow> Inr (IntV i))
          else if HasPrefix valueStr at_dquote \<and> HasSuffix valueStr dquote
          then Inr (StrV (TrimSuffix (TrimPrefix valueStr at_dquote) dquote))
          else Inr (StrV valueStr))"

text \<open>\<open>evaluateExpression\<close>. The operands of \<open>+\<close> and \<open>-\<close> are resolved left to right and
  the first error is returned. \<open>int(str[0])\<close> is the first byte of the string.\<close>

definition binary_operands :: "Parser \<Rightarrow> string \<Rightarrow> string \<Rightarrow> error + (go_int \<times> go_int)" where
  "binary_operands p t1 t2 =
     (case getNumberValue p t1 of
        Inl e \<Rightarrow> Inl e
      | Inr a \<Rightarrow> (case getNumberValue p t2 of Inl e \<Rightarrow> Inl e | Inr b \<Rightarrow> Inr (a, b)))"

definition evaluateExpression :: "Parser \<Rightarrow> string \<Rightarrow> error + go_int" where
  "evaluateExpression p expr =
     (let tokens = Fields expr in
      if length tokens < 2 then Inl ErrInvalidExpression
      else if tokens ! 0 = ''+'' then
        (if length tokens \<noteq> 3 then Inl ErrInvalidExpression
         else case binary_operands p (tokens ! 1) (tokens ! 2) of
                Inl e \<Rightarrow> Inl e | Inr (a, b) \<Rightarrow> Inr (a + b))
      else if tokens ! 0 = ''-'' then
        (if length tokens \<noteq> 3 then Inl ErrInvalidExpression
         else case binary_operands p (tokens ! 1) (tokens ! 2) of
                Inl e \<Rightarrow> Inl e | Inr (a, b) \<Rightarrow> Inr (a - b))
      else if tokens ! 0 = ''ord'' then
        (if length tokens \<noteq> 2 then Inl ErrInvalidExpression
         else case getStringValue p (tokens ! 1) of
                Inl e \<Rightarrow> Inl e
              | Inr str \<Rightarrow>
                  if length str = 0 then Inl EmptyString
                  else
                    let str' = (if HasPrefix str dquote \<and> HasSuffix str dquote
                                then TrimSuffix (TrimPrefix str dquote) dquote else str)
                    in (case str' of
                          [] \<Rightarrow> Inl EmptyString
                        | c # _ \<Rightarrow> Inr (of_char c)))
      else if tokens ! 0 = ''abs'' then
        (if length tokens \<noteq> 2 then Inl ErrInvalidExpression
         else case getNumberValue p (tokens ! 1) of
                Inl e \<Rightarrow> Inl e
              | Inr v \<Rightarrow> if sint v < 0 then Inr (- v) else Inr v)
      else Inl (UnknownOperation (tokens ! 0)))"

text \<open>The loop that resolves the elements of an array literal (the same in \<open>handleConstant\<close>
  and in \<open>Parse\<close>): empty elements are skipped, the first error ends the loop.\<close>

fun resolveElements :: "Parser \<Rightarrow> string list \<Rightarrow> error + string list" where
  "resolveElements p [] = Inr []"
| "resolveElements p (v0 # vs) =
     (let v = TrimSpace v0 in
      if v \<noteq> [] then
        (case resolveValue p v of
           Inl e \<Rightarrow> Inl e
         | Inr resolved \<Rightarrow>
             (case resolveElements p vs of
                Inl e \<Rightarrow> Inl e
              | Inr array \<Rightarrow> Inr (Sprint resolved # array)))
      else resolveElements p vs)"

text \<open>\<open>handleConstant\<close> changes \<open>p.variables\<close> in place and returns an error or nil: the
  model returns the error, if any, together with the parser as the call leaves it.\<close>

definition handleConstant :: "Parser \<Rightarrow> string \<Rightarrow> error option \<times> Parser" where
  "handleConstant p line0 =
     (let line = TrimSuffix line0 '';'';
          parts = Split line '':=''
      in if length parts \<noteq> 2 then (Some ErrInvalidSyntax, p)
         else
           let name = TrimSpace (parts ! 0);
               valueStr = TrimSpace (parts ! 1)
           in if \<not> isValidName name then (Some (InvalidName name), p)
              else if HasPrefix valueStr ''?('' \<and> HasSuffix valueStr '')'' then
                (case evaluateExpression p (TrimSuffix (TrimPrefix valueStr ''?('') '')'') of
                   Inl e \<Rightarrow> (Some e, p)
                 | Inr v \<Rightarrow> (None, assign p name (IntV v)))
              else if HasPrefix valueStr ''['' \<and> HasSuffix valueStr '']'' then
                (case resolveElements p
                        (Split (TrimSuffix (TrimPrefix valueStr ''['') '']'') '','') of
                   Inl e \<Rightarrow> (Some e, p)
                 | Inr array \<Rightarrow> (None, assign p name (ArrV array)))
              else if HasPrefix valueStr at_dquote \<and> HasSuffix valueStr dquote then
                (None, assign p name (StrV (TrimSuffix (TrimPrefix valueStr at_dquote) dquote)))
              else if isNumber valueStr then
                (case parseNumber valueStr of
                   Inl e \<Rightarrow> (Some e, p)
                 | Inr v \<Rightarrow> (None, assign p name (IntV v)))
              else
                (case lookup p valueStr of
                   Some v \<Rightarrow> (None, assign p name v)
                 | None \<Rightarrow> (None, assign p name (StrV valueStr))))"

text \<open>\<open>handleKeyValue\<close> appends to the output builder; the model returns the error, if
  any, and the builder's new contents. The type switch on the resolved value has the three
  cases of \<open>val\<close>; its \<open>default\<close> branch is for types that \<open>p.variables\<close> never holds.\<close>

definition format_item :: "string \<Rightarrow> string" where
  "format_item item =
     (if (case Atoi item of Inl e \<Rightarrow> True | Inr i \<Rightarrow> False) \<and> item \<noteq> ''true'' \<and> item \<noteq> ''false''
      then dquote @ item @ dquote else item)"

definition format_value :: "val \<Rightarrow> string" where
  "format_value value =
     (case value of
        StrV v \<Rightarrow> if v = ''true'' \<or> v = ''false'' then v else dquote @ v @ dquote
      | IntV v \<Rightarrow> itoa (sint v)
      | ArrV v \<Rightarrow> ''['' @ join_with '', '' (map format_item v) @ '']'')"

definition handleKeyValue :: "Parser \<Rightarrow> string \<Rightarrow> string \<Rightarrow> error option \<times> string" where
  "handleKeyValue p output line =
     (let parts = SplitN line ''='' 2
      in if length parts \<noteq> 2 then (Some ErrInvalidSyntax, output)
         else
           let key = TrimSpace (parts ! 0);
               valueStr = TrimSpace (parts ! 1)
           in case resolveValue p valueStr of
                Inl e \<Rightarrow> (Some e, output)
              | Inr value \<Rightarrow> (None, output @ key @ '' = '' @ format_value value @ newline))"

text \<open>\<open>removeMultilineComments\<close> replaces every match of the regular expression
  \<open>\{-[\s\S]*?-\}\<close> by nothing. The leftmost match starts at the first \<open>{-\<close> that has a
  \<open>-}\<close> at least two bytes further on and, the star being lazy, ends with the first
  such \<open>-}\<close>; the search goes on behind the match. When the first \<open>{-\<close> has no \<open>-}\<close>
  after it, no later one has, and nothing more is removed.\<close>

function removeMultilineComments :: "string \<Rightarrow> string" where
  "removeMultilineComments s =
     (case Index s ''{-'' of
        None \<Rightarrow> s
      | Some i \<Rightarrow>
          (case Index (drop (i + 2) s) ''-}'' of
             None \<Rightarrow> s
           | Some j \<Rightarrow> take i s @ removeMultilineComments (drop (i + 2 + j + 2) s)))"
  by pat_completeness auto
termination
proof (relation "measure length")
  show "wf (measure length)" by simp
next
  fix s :: string and i j :: nat
  assume "Index s ''{-'' = Some i"
  then have "i + 2 \<le> length s" by (auto dest: Index_bound)
  then show "(drop (i + 2 + j + 2) s, s) \<in> measure length" by simp
qed

declare removeMultilineComments.simps [simp del]

text \<open>One turn of the loop of \<open>Parse\<close> over the lines: the parser and the output builder
  go in and come out.\<close>

definition processLine ::
  "Parser \<Rightarrow> string \<Rightarrow> string \<Rightarrow> error option \<times> Parser \<times> string" where
  "processLine p output line0 =
     (let line = TrimSpace line0 in
      if line = [] then (None, p, output)
      else if HasPrefix line ''//'' then (None, p, output)
      else if Contains line '':='' \<and> HasSuffix line '';'' then
        (case handleConstant p line of (err, p') \<Rightarrow> (err, p', output))
      else if HasPrefix line ''['' \<and> HasSuffix line '']'' then
        (let inner = TrimSpace (TrimSuffix (TrimPrefix line ''['') '']'') in
         if Contains inner '','' \<and> \<not> Contains inner ''='' then
           (case resolveElements p (Split inner '','') of
              Inl e \<Rightarrow> (Some e, p, output)
            | Inr array \<Rightarrow>
                (None, assign p (''_array_'' @ itoa (int (len_variables p))) (ArrV array), output))
         else (None, p, output @ ''['' @ inner @ '']'' @ newline))
      else if Contains line ''='' \<and> \<not> Contains line '':='' then
        (case handleKeyValue p output line of (err, output') \<Rightarrow> (err, p, output'))
      else (None, p, output))"

fun processLines ::
  "Parser \<Rightarrow> string \<Rightarrow> string list \<Rightarrow> error option \<times> Parser \<times> string" where
  "processLines p output [] = (None, p, output)"
| "processLines p output (line # rest) =
     (case processLine p output line of
        (Some e, p', output') \<Rightarrow> (Some e, p', output')
      | (None, p', output') \<Rightarrow> processLines p' output' rest)"

text \<open>The file system that \<open>os.ReadFile\<close> and \<open>os.WriteFile\<close> act on: the contents of the
  files that exist, and the paths that cannot be opened for writing.\<close>

record world =
  files :: "string \<rightharpoonup> string"
  denied :: "string set"

definition ReadFile :: "world \<Rightarrow> string \<Rightarrow> error + string" where
  "ReadFile w path = (case files w path of None \<Rightarrow> Inl (IOError path) | Some c \<Rightarrow> Inr c)"

definition WriteFile :: "world \<Rightarrow> string \<Rightarrow> string \<Rightarrow> error option \<times> world" where
  "WriteFile w path data =
     (if path \<in> denied w then (Some (IOError path), w)
      else (None, w\<lparr>files := (files w)(path \<mapsto> data)\<rparr>))"

definition Parse ::
  "Parser \<Rightarrow> world \<Rightarrow> string \<Rightarrow> string \<Rightarrow> error option \<times> Parser \<times> world" where
  "Parse p w inputPath outputPath =
     (case ReadFile w inputPath of
        Inl e \<Rightarrow> (Some e, p, w)
      | Inr content \<Rightarrow>
          (case processLines p [] (Split (removeMultilineComments content) newline) of
             (Some e, p', output) \<Rightarrow> (Some e, p', w)
           | (None, p', output) \<Rightarrow>
               (case WriteFile w outputPath output of (err, w') \<Rightarrow> (err, p', w'))))"

section \<open>Notions of the specification\<close>

text \<open>The spec's naming rule for constants, the regular expression \<open>^[A-Z_]+$\<close>: one or more
  characters, each a capital ASCII letter or the underscore.\<close>

definition spec_name_pattern :: "string \<Rightarrow> bool" where
  "spec_name_pattern s \<longleftrightarrow> s \<noteq> [] \<and> (\<forall>c \<in> set s. c \<in> set ''ABCDEFGHIJKLMNOPQRSTUVWXYZ_'')"

text \<open>The errors that evaluating a declaration's value can give: a malformed expression, an
  unknown operation, a type mismatch, \<open>ord\<close> of the empty string, a malformed number.\<close>

definition evaluation_error :: "error \<Rightarrow> bool" where
  "evaluation_error e =
     (case e of
        ErrInvalidExpression \<Rightarrow> True
      | EmptyString \<Rightarrow> True
      | UnknownOperation t \<Rightarrow> True
      | NotANumber t \<Rightarrow> True
      | NotAString t \<Rightarrow> True
      | UnsupportedType t \<Rightarrow> True
      | NumError f n k \<Rightarrow> True
      | _ \<Rightarrow> False)"

text \<open>The spec's "numeric code point of the first character" of a text: the first rune of
  its UTF-8 encoding, U+FFFD where the bytes are not well-formed UTF-8.\<close>

definition code_point_of_first_char :: "string \<Rightarrow> nat" where
  "code_point_of_first_char s =
     (case map of_char s of
        [] \<Rightarrow> 0xFFFD
      | b0 # bs \<Rightarrow>
          if b0 < 0x80 then b0
          else if 0xC2 \<le> b0 \<and> b0 \<le> 0xDF then
            (case bs of
               b1 # _ \<Rightarrow>
                 if 0x80 \<le> b1 \<and> b1 \<le> 0xBF then (b0 - 0xC0) * 64 + (b1 - 0x80) else 0xFFFD
             | _ \<Rightarrow> 0xFFFD)
          else if 0xE0 \<le> b0 \<and> b0 \<le> 0xEF then
            (case bs of
               b1 # b2 # _ \<Rightarrow>
                 if (if b0 = 0xE0 then 0xA0 else 0x80) \<le> b1
                    \<and> b1 \<le> (if b0 = 0xED then 0x9F else 0xBF)
                    \<and> 0x80 \<le> b2 \<and> b2 \<le> 0xBF
                 then (b0 - 0xE0) * 4096 + (b1 - 0x80) * 64 + (b2 - 0x80) else 0xFFFD
             | _ \<Rightarrow> 0xFFFD)
          else if 0xF0 \<le> b0 \<and> b0 \<le> 0xF4 then
            (case bs of
               b1 # b2 # b3 # _ \<Rightarrow>
                 if (if b0 = 0xF0 then 0x90 else 0x80) \<le> b1
                    \<and> b1 \<le> (if b0 = 0xF4 then 0x8F else 0xBF)
                    \<and> 0x80 \<le> b2 \<and> b2 \<le> 0xBF \<and> 0x80 \<le> b3 \<and> b3 \<le> 0xBF
                 then (b0 - 0xF0) * 262144 + (b1 - 0x80) * 4096 + (b2 - 0x80) * 64 + (b3 - 0x80)
                 else 0xFFFD
             | _ \<Rightarrow> 0xFFFD)
          else 0xFFFD)"

text \<open>The standard base-8 interpretation of a string of octal digits.\<close>

definition octal_value :: "string \<Rightarrow> int" where
  "octal_value ds = foldl (\<lambda>n c. 8 * n + (of_char c - 48)) 0 ds"

text \<open>\<open>s\<close> is the decimal rendering of the natural number \<open>v\<close> with no leading zero padding:
  decimal digits only, their base-10 value is \<open>v\<close>, and a leading \<open>0\<close> only for zero itself.\<close>

definition decimal_rendering :: "string \<Rightarrow> int \<Rightarrow> bool" where
  "decimal_rendering s v \<longleftrightarrow>
     s \<noteq> [] \<and> (\<forall>c \<in> set s. c \<in> set ''0123456789'') \<and> (hd s = CHR ''0'' \<longrightarrow> s = ''0'')
     \<and> foldl (\<lambda>n c. 10 * n + (of_char c - 48)) 0 s = v"

section \<open>Relations between two runs\<close>

text \<open>Two parser states agree when they bind the same values to every name that does not
  contain the text \<open>_array_\<close>; they may differ on the synthesized names. Two results of
  \<open>handleConstant\<close>, or of the loop over the lines, are related when they carry the same
  error, states that agree and the same output.\<close>

definition agree :: "Parser \<Rightarrow> Parser \<Rightarrow> bool" where
  "agree p p' \<longleftrightarrow> (\<forall>k. \<not> Contains k ''_array_'' \<longrightarrow> lookup p k = lookup p' k)"

definition related_decl :: "error option \<times> Parser \<Rightarrow> error option \<times> Parser \<Rightarrow> bool" where
  "related_decl x y \<longleftrightarrow> fst x = fst y \<and> agree (snd x) (snd y)"

definition related ::
  "error option \<times> Parser \<times> string \<Rightarrow> error option \<times> Parser \<times> string \<Rightarrow> bool" where
  "related x y \<longleftrightarrow> fst x = fst y \<and> agree (fst (snd x)) (fst (snd y)) \<and> snd (snd x) = snd (snd y)"

section \<open>Properties\<close>

subsection \<open>Prefixes and suffixes\<close>

lemma HasPrefix_append [simp]: "HasPrefix (pre @ s) pre"
  by (simp add: HasPrefix_def)

lemma HasSuffix_append [simp]: "HasSuffix (s @ suf) suf"
  by (simp add: HasSuffix_def)

lemma TrimPrefix_append [simp]: "TrimPrefix (pre @ s) pre = s"
  by (simp add: TrimPrefix_def)

lemma TrimSuffix_append [simp]: "TrimSuffix (s @ suf) suf = s"
  by (simp add: TrimSuffix_def)

lemma not_number_question: "HasPrefix V ''?('' \<Longrightarrow> \<not> isNumber V"
proof -
  assume h: "HasPrefix V ''?(''"
  then obtain rest where V: "V = CHR ''?'' # CHR ''('' # rest"
    by (cases V; cases "tl V") (auto simp: HasPrefix_def)
  show ?thesis
    unfolding V
    by (simp add: isNumber_def HasPrefix_def Atoi_def ParseInt_def ParseUint_def digit_val_def)
qed

lemma not_array_question: "HasPrefix V ''?('' \<Longrightarrow> \<not> HasPrefix V ''[''"
  by (cases V) (auto simp: HasPrefix_def)

lemma not_quoted_question: "HasPrefix V ''?('' \<Longrightarrow> \<not> HasPrefix V at_dquote"
  by (cases V) (auto simp: HasPrefix_def at_dquote_def)

lemma handleConstant_not_two_parts:
  "length (Split (TrimSuffix line '';'') '':='') \<noteq> 2 \<Longrightarrow>
     handleConstant p line = (Some ErrInvalidSyntax, p)"
  by (simp add: handleConstant_def Let_def)

text \<open>
  Claim C10, as the code has it. A declaration whose value starts with \<open>?(\<close> but does not
  end with \<open>)\<close> never fails with the invalid-expression error. When its text contains
  \<open>:=\<close> exactly once, so that it splits into a name and a value, the value is neither an
  array, nor a quoted string, nor a numeral, and a valid name is bound to the value of the
  symbol that the token names, if it names one, and otherwise to the raw token as text.
  When \<open>:=\<close> does not occur exactly once (the value itself contains one),
  \<open>handleConstant\<close> returns the syntax error and binds nothing.
\<close>

theorem unterminated_expression_is_text:
  "(length (Split (TrimSuffix line '';'') '':='') \<noteq> 2 \<longrightarrow>
      handleConstant p line = (Some ErrInvalidSyntax, p))
   \<and> (Split (TrimSuffix line '';'') '':='' = [l, r]
        \<and> HasPrefix (TrimSpace r) ''?('' \<and> \<not> HasSuffix (TrimSpace r) '')'' \<longrightarrow>
          fst (handleConstant p line) \<noteq> Some ErrInvalidExpression
        \<and> (isValidName (TrimSpace l) \<longrightarrow>
             handleConstant p line =
               (None, assign p (TrimSpace l)
                  (case lookup p (TrimSpace r) of Some v \<Rightarrow> v | None \<Rightarrow> StrV (TrimSpace r)))))"
proof (intro conjI impI)
  assume "length (Split (TrimSuffix line '';'') '':='') \<noteq> 2"
  then show "handleConstant p line = (Some ErrInvalidSyntax, p)"
    by (rule handleConstant_not_two_parts)
next
  assume h: "Split (TrimSuffix line '';'') '':='' = [l, r]
        \<and> HasPrefix (TrimSpace r) ''?('' \<and> \<not> HasSuffix (TrimSpace r) '')''"
  then have s: "Split (TrimSuffix line '';'') '':='' = [l, r]"
    and pre: "HasPrefix (TrimSpace r) ''?(''" and suf: "\<not> HasSuffix (TrimSpace r) '')''"
    by simp_all
  have bound: "handleConstant p line =
      (None, assign p (TrimSpace l)
         (case lookup p (TrimSpace r) of Some v \<Rightarrow> v | None \<Rightarrow> StrV (TrimSpace r)))"
    if "isValidName (TrimSpace l)"
    using that s suf not_number_question [OF pre] not_array_question [OF pre]
      not_quoted_question [OF pre]
    by (simp add: handleConstant_def Let_def split: option.splits)
  show "fst (handleConstant p line) \<noteq> Some ErrInvalidExpression"
  proof (cases "isValidName (TrimSpace l)")
    case True
    then show ?thesis by (simp add: bound)
  next
    case False
    then show ?thesis by (simp add: handleConstant_def Let_def s)
  qed
  show "handleConstant p line =
      (None, assign p (TrimSpace l)
         (case lookup p (TrimSpace r) of Some v \<Rightarrow> v | None \<Rightarrow> StrV (TrimSpace r)))"
    if "isValidName (TrimSpace l)"
    using that by (rule bound)
qed

text \<open>
  The claim as stated fails when the value contains \<open>:=\<close>: in \<open>X := ?(a:=b;\<close> the value
  \<open>?(a:=b\<close> starts with \<open>?(\<close>, does not end with \<open>)\<close> and is no array, quoted string,
  numeral or bound name, yet nothing is bound: the declaration aborts with the syntax error.
\<close>

theorem unterminated_expression_is_text_counterexample:
  "HasPrefix ''?(a:=b'' ''?('' \<and> \<not> HasSuffix ''?(a:=b'' '')''
   \<and> \<not> HasPrefix ''?(a:=b'' ''['' \<and> \<not> HasPrefix ''?(a:=b'' at_dquote
   \<and> \<not> isNumber ''?(a:=b'' \<and> lookup NewParser ''?(a:=b'' = None
   \<and> isValidName ''X''
   \<and> handleConstant NewParser ''X := ?(a:=b;'' = (Some ErrInvalidSyntax, NewParser)"
  by code_simp

lemma wrapped_expression:
  assumes "V = ''?('' @ expr @ '')''"
  shows "HasPrefix V ''?(''" and "HasSuffix V '')''"
    and "TrimSuffix (TrimPrefix V ''?('') '')'' = expr"
proof -
  show 1: "HasPrefix V ''?(''" by (simp add: assms HasPrefix_def)
  show "HasSuffix V '')''" by (simp add: assms HasSuffix_def)
  have "TrimPrefix V ''?('' = expr @ '')''" by (simp add: assms TrimPrefix_def HasPrefix_def)
  then show "TrimSuffix (TrimPrefix V ''?('') '')'' = expr" by (simp add: TrimSuffix_def HasSuffix_def)
qed

text \<open>
  Claim C8. In a declaration \<open>N := ?(ord S);\<close> whose operand resolves to the empty text,
  evaluation fails with the empty-string error; \<open>handleConstant\<close> returns it and leaves
  the symbol table as it was, so \<open>N\<close> is not bound.
\<close>

theorem ord_of_empty_text_fails:
  assumes "Split (TrimSuffix line '';'') '':='' = [l, r]"
    and "isValidName (TrimSpace l)"
    and "TrimSpace r = ''?('' @ expr @ '')''"
    and "Fields expr = [''ord'', S]"
    and "getStringValue p S = Inr []"
  shows "handleConstant p line = (Some EmptyString, p)"
proof -
  note w = wrapped_expression [OF assms(3)]
  have "evaluateExpression p expr = Inl EmptyString"
    by (simp add: evaluateExpression_def assms(4,5))
  then show ?thesis
    by (simp add: handleConstant_def Let_def assms(1,2) w)
qed


theorem unterminated_expression_is_text_witness:
  "length (Split (TrimSuffix ''X := Y := 1;'' '';'') '':='') \<noteq> 2
   \<and> handleConstant NewParser ''X := Y := 1;'' = (Some ErrInvalidSyntax, NewParser)
   \<and> Split (TrimSuffix ''X := ?(+ 1 2;'' '';'') '':='' = [''X '', '' ?(+ 1 2'']
   \<and> isValidName (TrimSpace ''X '')
   \<and> HasPrefix (TrimSpace '' ?(+ 1 2'') ''?(''
   \<and> \<not> HasSuffix (TrimSpace '' ?(+ 1 2'') '')''
   \<and> fst (handleConstant NewParser ''X := ?(+ 1 2;'') \<noteq> Some ErrInvalidExpression
   \<and> handleConstant NewParser ''X := ?(+ 1 2;'' =
         (None, \<lparr>variables = [(''X'', StrV ''?(+ 1 2'')]\<rparr>)"
proof -
  have 0: "length (Split (TrimSuffix ''X := Y := 1;'' '';'') '':='') \<noteq> 2" by code_simp
  have 1: "Split (TrimSuffix ''X := ?(+ 1 2;'' '';'') '':='' = [''X '', '' ?(+ 1 2'']"
    by code_simp
  have 2: "isValidName (TrimSpace ''X '')" by code_simp
  have 3: "HasPrefix (TrimSpace '' ?(+ 1 2'') ''?(''" by code_simp
  have 4: "\<not> HasSuffix (TrimSpace '' ?(+ 1 2'') '')''" by code_simp
  have 5: "TrimSpace ''X '' = ''X''" by code_simp
  have 6: "TrimSpace '' ?(+ 1 2'' = ''?(+ 1 2''" by code_simp
  have a: "handleConstant NewParser ''X := Y := 1;'' = (Some ErrInvalidSyntax, NewParser)"
    using unterminated_expression_is_text
      [where line = "''X := Y := 1;''" and p = NewParser] 0 by blast
  note t = unterminated_expression_is_text
      [where line = "''X := ?(+ 1 2;''" and p = NewParser and l = "''X ''" and r = "'' ?(+ 1 2''"]
  have b: "fst (handleConstant NewParser ''X := ?(+ 1 2;'') \<noteq> Some ErrInvalidExpression"
    using t 1 3 4 by blast
  have "handleConstant NewParser ''X := ?(+ 1 2;'' =
         (None, assign NewParser (TrimSpace ''X '')
            (case lookup NewParser (TrimSpace '' ?(+ 1 2'') of
               Some v \<Rightarrow> v | None \<Rightarrow> StrV (TrimSpace '' ?(+ 1 2'')))"
    using t 1 2 3 4 by blast
  then have c: "handleConstant NewParser ''X := ?(+ 1 2;'' =
         (None, \<lparr>variables = [(''X'', StrV ''?(+ 1 2'')]\<rparr>)"
    by (simp add: 5 6 lookup_def assign_def NewParser_def)
  from 0 1 2 3 4 a b c show ?thesis by blast
qed

theorem ord_of_empty_text_fails_witness:
  "Split (TrimSuffix ''X := ?(ord E);'' '';'') '':='' = [''X '', '' ?(ord E)'']
   \<and> isValidName (TrimSpace ''X '')
   \<and> TrimSpace '' ?(ord E)'' = ''?('' @ ''ord E'' @ '')''
   \<and> Fields ''ord E'' = [''ord'', ''E'']
   \<and> getStringValue \<lparr>variables = [(''E'', StrV [])]\<rparr> ''E'' = Inr []
   \<and> handleConstant \<lparr>variables = [(''E'', StrV [])]\<rparr> ''X := ?(ord E);'' =
         (Some EmptyString, \<lparr>variables = [(''E'', StrV [])]\<rparr>)"
proof -
  have 1: "Split (TrimSuffix ''X := ?(ord E);'' '';'') '':='' = [''X '', '' ?(ord E)'']"
    by code_simp
  have 2: "isValidName (TrimSpace ''X '')" by code_simp
  have 3: "TrimSpace '' ?(ord E)'' = ''?('' @ ''ord E'' @ '')''" by code_simp
  have 4: "Fields ''ord E'' = [''ord'', ''E'']" by code_simp
  have 5: "getStringValue \<lparr>variables = [(''E'', StrV [])]\<rparr> ''E'' = Inr []" by code_simp
  from ord_of_empty_text_fails [OF 1 2 3 4 5] 1 2 3 4 5 show ?thesis by blast
qed


subsection \<open>Names, numbers and errors\<close>

lemma capital_or_underscore:
  "((65 :: nat) \<le> of_char c \<and> of_char c \<le> (90 :: nat)) \<or> c = CHR ''_''
     \<longleftrightarrow> c \<in> set ''ABCDEFGHIJKLMNOPQRSTUVWXYZ_''"
proof (cases c)
  case (Char b0 b1 b2 b3 b4 b5 b6 b7)
  show ?thesis
    unfolding Char
    by (cases b0; cases b1; cases b2; cases b3; cases b4; cases b5; cases b6; cases b7) simp_all
qed

lemma only_capitals_iff:
  "only_capitals s \<longleftrightarrow> (\<forall>c \<in> set s. c \<in> set ''ABCDEFGHIJKLMNOPQRSTUVWXYZ_'')"
proof (induction s)
  case Nil
  show ?case by simp
next
  case (Cons r rs)
  have "only_capitals (r # rs) \<longleftrightarrow>
          ((((65 :: nat) \<le> of_char r \<and> of_char r \<le> (90 :: nat)) \<or> r = CHR ''_'') \<and> only_capitals rs)"
    by auto
  also have "\<dots> \<longleftrightarrow> (r \<in> set ''ABCDEFGHIJKLMNOPQRSTUVWXYZ_'' \<and> only_capitals rs)"
    by (simp only: capital_or_underscore)
  finally show ?case using Cons.IH by simp
qed

lemma isValidName_iff_pattern: "isValidName s \<longleftrightarrow> spec_name_pattern s"
  by (simp add: isValidName_def spec_name_pattern_def only_capitals_iff del: set_simps)

lemma ParseInt_error: "ParseInt s b z = Inl e \<Longrightarrow> \<exists>k. e = NumError ''ParseInt'' s k"
  by (auto simp: ParseInt_def Let_def split: if_splits sum.splits num_err.splits)

lemma Atoi_error: "Atoi s = Inl e \<Longrightarrow> \<exists>k. e = NumError ''Atoi'' s k"
  by (auto simp: Atoi_def split: sum.splits error.splits dest: ParseInt_error)

lemma parseNumber_error: "parseNumber s = Inl e \<Longrightarrow> \<exists>f n k. e = NumError f n k"
  by (auto simp: parseNumber_def split: if_splits sum.splits dest: ParseInt_error Atoi_error)

lemma isNumber_parseNumber: "isNumber s \<longleftrightarrow> (\<exists>i. parseNumber s = Inr i)"
  by (auto simp: isNumber_def parseNumber_def split: sum.splits)

lemma resolveValue_total: "\<exists>v. resolveValue p s = Inr v"
  by (auto simp: resolveValue_def isNumber_parseNumber split: option.splits)

lemma resolveElements_total: "\<exists>a. resolveElements p vs = Inr a"
proof (induction vs)
  case Nil
  show ?case by simp
next
  case (Cons v vs)
  obtain x where "resolveValue p (TrimSpace v) = Inr x" using resolveValue_total by blast
  with Cons show ?case by (auto simp: Let_def)
qed

lemma getNumberValue_error: "getNumberValue p t = Inl e \<Longrightarrow> evaluation_error e"
  by (auto simp: getNumberValue_def evaluation_error_def split: option.splits val.splits
      dest: parseNumber_error)

lemma getStringValue_error: "getStringValue p t = Inl e \<Longrightarrow> evaluation_error e"
  by (auto simp: getStringValue_def evaluation_error_def split: option.splits val.splits if_splits)

lemma binary_operands_error: "binary_operands p a b = Inl e \<Longrightarrow> evaluation_error e"
  by (auto simp: binary_operands_def split: sum.splits dest: getNumberValue_error)

lemma evaluateExpression_error: "evaluateExpression p x = Inl e \<Longrightarrow> evaluation_error e"
  unfolding evaluateExpression_def Let_def
  by (auto split: if_splits sum.splits list.splits
      dest: getNumberValue_error getStringValue_error binary_operands_error
      simp: evaluation_error_def)


lemma handleConstant_error:
  assumes "Split (TrimSuffix line '';'') '':='' = [l, r]" and "isValidName (TrimSpace l)"
    and "handleConstant p line = (Some e, p')"
  shows "evaluation_error e"
proof -
  obtain a where a: "resolveElements p
      (Split (TrimSuffix (TrimPrefix (TrimSpace r) ''['') '']'') '','') = Inr a"
    using resolveElements_total by blast
  show ?thesis
    using assms(3)
    by (auto simp: handleConstant_def Let_def assms(1,2) a evaluation_error_def
        split: if_splits sum.splits option.splits
        dest: evaluateExpression_error parseNumber_error)
qed

text \<open>
  Claim C7, as the code has it. A declaration whose text contains \<open>:=\<close> exactly once
  aborts with the name-validation error if and only if its name (the trimmed text before
  \<open>:=\<close>) does not match \<open>^[A-Z_]+$\<close>: a name that does not match gives that error and
  leaves the parser unchanged; for a name that matches, whatever \<open>handleConstant\<close> returns
  is not a name-validation error. A declaration in which \<open>:=\<close> does not occur exactly once
  aborts with the syntax error before the name is examined, whatever the name.
\<close>

theorem declaration_name_validation:
  "(length (Split (TrimSuffix line '';'') '':='') \<noteq> 2 \<longrightarrow>
      handleConstant p line = (Some ErrInvalidSyntax, p))
   \<and> (Split (TrimSuffix line '';'') '':='' = [l, r] \<longrightarrow>
        (\<not> spec_name_pattern (TrimSpace l) \<longrightarrow>
            handleConstant p line = (Some (InvalidName (TrimSpace l)), p))
      \<and> (spec_name_pattern (TrimSpace l) \<longrightarrow>
            (\<forall>n. fst (handleConstant p line) \<noteq> Some (InvalidName n))))"
proof (intro conjI impI allI)
  assume "length (Split (TrimSuffix line '';'') '':='') \<noteq> 2"
  then show "handleConstant p line = (Some ErrInvalidSyntax, p)"
    by (rule handleConstant_not_two_parts)
next
  assume s: "Split (TrimSuffix line '';'') '':='' = [l, r]"
    and "\<not> spec_name_pattern (TrimSpace l)"
  then have "\<not> isValidName (TrimSpace l)" by (simp add: isValidName_iff_pattern)
  then show "handleConstant p line = (Some (InvalidName (TrimSpace l)), p)"
    by (simp add: handleConstant_def Let_def s)
next
  fix n
  assume s: "Split (TrimSuffix line '';'') '':='' = [l, r]"
    and "spec_name_pattern (TrimSpace l)"
  then have v: "isValidName (TrimSpace l)" by (simp add: isValidName_iff_pattern)
  show "fst (handleConstant p line) \<noteq> Some (InvalidName n)"
  proof
    assume "fst (handleConstant p line) = Some (InvalidName n)"
    then obtain p' where "handleConstant p line = (Some (InvalidName n), p')"
      by (cases "handleConstant p line") auto
    from handleConstant_error [OF s v this] show False
      by (simp add: evaluation_error_def)
  qed
qed

text \<open>
  The claim as stated fails when the value contains \<open>:=\<close>: in \<open>bad := @"a:=b";\<close> the
  name \<open>bad\<close> does not match the pattern, but the declaration aborts with the syntax
  error, not with the name-validation error.
\<close>

theorem declaration_name_validation_counterexample:
  "\<not> spec_name_pattern ''bad''
   \<and> handleConstant NewParser (''bad := @'' @ dquote @ ''a:=b'' @ dquote @ '';'')
       = (Some ErrInvalidSyntax, NewParser)"
  by code_simp

theorem declaration_name_validation_witness:
  "length (Split (TrimSuffix ''A := B := 3;'' '';'') '':='') \<noteq> 2
   \<and> handleConstant NewParser ''A := B := 3;'' = (Some ErrInvalidSyntax, NewParser)
   \<and> Split (TrimSuffix ''invalid_name := 42;'' '';'') '':='' = [''invalid_name '', '' 42'']
   \<and> \<not> spec_name_pattern (TrimSpace ''invalid_name '')
   \<and> handleConstant NewParser ''invalid_name := 42;'' =
         (Some (InvalidName ''invalid_name''), NewParser)
   \<and> Split (TrimSuffix ''MY_VAR := 10;'' '';'') '':='' = [''MY_VAR '', '' 10'']
   \<and> spec_name_pattern (TrimSpace ''MY_VAR '')
   \<and> fst (handleConstant NewParser ''MY_VAR := 10;'') \<noteq> Some (InvalidName ''MY_VAR'')"
proof -
  have 0: "length (Split (TrimSuffix ''A := B := 3;'' '';'') '':='') \<noteq> 2" by code_simp
  have 1: "Split (TrimSuffix ''invalid_name := 42;'' '';'') '':='' = [''invalid_name '', '' 42'']"
    by code_simp
  have 2: "\<not> spec_name_pattern (TrimSpace ''invalid_name '')" by code_simp
  have 3: "TrimSpace ''invalid_name '' = ''invalid_name''" by code_simp
  have 4: "Split (TrimSuffix ''MY_VAR := 10;'' '';'') '':='' = [''MY_VAR '', '' 10'']"
    by code_simp
  have 5: "spec_name_pattern (TrimSpace ''MY_VAR '')" by code_simp
  have a: "handleConstant NewParser ''A := B := 3;'' = (Some ErrInvalidSyntax, NewParser)"
    using declaration_name_validation [where line = "''A := B := 3;''" and p = NewParser] 0
    by blast
  have "handleConstant NewParser ''invalid_name := 42;'' =
         (Some (InvalidName (TrimSpace ''invalid_name '')), NewParser)"
    using declaration_name_validation [where line = "''invalid_name := 42;''" and p = NewParser
        and l = "''invalid_name ''" and r = "'' 42''"] 1 2
    by blast
  then have 6: "handleConstant NewParser ''invalid_name := 42;'' =
         (Some (InvalidName ''invalid_name''), NewParser)"
    by (simp add: 3)
  have 7: "fst (handleConstant NewParser ''MY_VAR := 10;'') \<noteq> Some (InvalidName ''MY_VAR'')"
    using declaration_name_validation [where line = "''MY_VAR := 10;''" and p = NewParser
        and l = "''MY_VAR ''" and r = "'' 10''"] 4 5
    by blast
  from 0 a 1 2 4 5 6 7 show ?thesis by blast
qed

subsection \<open>The loop over the lines\<close>

lemma processLines_append:
  "processLines p out (xs @ ys) =
     (case processLines p out xs of
        (Some e, p', out') \<Rightarrow> (Some e, p', out')
      | (None, p', out') \<Rightarrow> processLines p' out' ys)"
  by (induction xs arbitrary: p out) (auto split: prod.splits option.splits)

text \<open>
  Claim C1. When some line of the input fails (with whatever validation or evaluation
  error), the lines before it having succeeded, \<open>Parse\<close> returns that error and the file
  system is as it was: nothing is written to the output path, whatever output the earlier
  lines had produced and whatever lines follow.
\<close>

theorem Parse_error_writes_nothing:
  assumes "ReadFile w inputPath = Inr content"
    and "Split (removeMultilineComments content) newline = before @ line # after"
    and "processLines p [] before = (None, p1, out1)"
    and "processLine p1 out1 line = (Some e, p2, out2)"
  shows "Parse p w inputPath outputPath = (Some e, p2, w)"
proof -
  have "processLines p [] (before @ line # after) = (Some e, p2, out2)"
    by (simp add: processLines_append assms(3,4))
  then show ?thesis
    by (simp add: Parse_def assms(1,2))
qed


theorem Parse_error_writes_nothing_witness:
  "ReadFile \<lparr>files = [''in'' \<mapsto> ''[section]'' @ newline @ ''invalid_name := 42;'' @ newline @ ''k = 1''],
             denied = {}\<rparr> ''in''
     = Inr (''[section]'' @ newline @ ''invalid_name := 42;'' @ newline @ ''k = 1'')
   \<and> Split (removeMultilineComments
              (''[section]'' @ newline @ ''invalid_name := 42;'' @ newline @ ''k = 1'')) newline
     = [''[section]''] @ ''invalid_name := 42;'' # [''k = 1'']
   \<and> processLines NewParser [] [''[section]''] = (None, NewParser, ''[section]'' @ newline)
   \<and> processLine NewParser (''[section]'' @ newline) ''invalid_name := 42;''
     = (Some (InvalidName ''invalid_name''), NewParser, ''[section]'' @ newline)
   \<and> Parse NewParser
        \<lparr>files = [''in'' \<mapsto> ''[section]'' @ newline @ ''invalid_name := 42;'' @ newline @ ''k = 1''],
          denied = {}\<rparr> ''in'' ''out''
     = (Some (InvalidName ''invalid_name''), NewParser,
        \<lparr>files = [''in'' \<mapsto> ''[section]'' @ newline @ ''invalid_name := 42;'' @ newline @ ''k = 1''],
          denied = {}\<rparr>)"
proof -
  have 1: "ReadFile \<lparr>files = [''in'' \<mapsto> ''[section]'' @ newline @ ''invalid_name := 42;'' @ newline @ ''k = 1''],
             denied = {}\<rparr> ''in''
     = Inr (''[section]'' @ newline @ ''invalid_name := 42;'' @ newline @ ''k = 1'')"
    by (simp add: ReadFile_def)
  have 2: "Split (removeMultilineComments
              (''[section]'' @ newline @ ''invalid_name := 42;'' @ newline @ ''k = 1'')) newline
     = [''[section]''] @ ''invalid_name := 42;'' # [''k = 1'']"
    by code_simp
  have 3: "processLines NewParser [] [''[section]''] = (None, NewParser, ''[section]'' @ newline)"
    by code_simp
  have 4: "processLine NewParser (''[section]'' @ newline) ''invalid_name := 42;''
     = (Some (InvalidName ''invalid_name''), NewParser, ''[section]'' @ newline)"
    by code_simp
  from Parse_error_writes_nothing [OF 1 2 3 4, of "''out''"] 1 2 3 4 show ?thesis by blast
qed


subsection \<open>Expressions\<close>

lemma lookup_assign: "lookup (assign p k v) k' = (if k' = k then Some v else lookup p k')"
  by (simp add: lookup_def assign_def update_conv')

lemma fields_from_nonempty: "t \<in> set (fields_from cur s) \<Longrightarrow> t \<noteq> []"
proof (induction cur s rule: fields_from.induct)
  case (1 cur s)
  show ?case
  proof (cases "s = []")
    case True
    with "1.prems" show ?thesis by (auto simp: fields_from.simps [of cur "[]"] split: if_splits)
  next
    case ne: False
    show ?thesis
    proof (cases "leading_space s = 0")
      case True
      with ne "1.prems" have "t \<in> set (fields_from (cur @ [hd s]) (tl s))"
        by (simp add: fields_from.simps [of cur s])
      with "1.IH"(1) [OF ne True] show ?thesis .
    next
      case False
      with ne "1.prems" have "t \<in> set (if cur = [] then [] else [cur])
          \<or> t \<in> set (fields_from [] (drop (leading_space s) s))"
        by (auto simp: fields_from.simps [of cur s] split: if_splits)
      with "1.IH"(2) [OF ne False] show ?thesis by (auto split: if_splits)
    qed
  qed
qed

lemma Fields_nonempty: "t \<in> set (Fields s) \<Longrightarrow> t \<noteq> []"
  unfolding Fields_def by (rule fields_from_nonempty)

text \<open>
  Claim C4, as the code has it. For a token that names no bound symbol: in numeric context
  (\<open>getNumberValue\<close>, the operands of \<open>+\<close>, \<open>-\<close> and \<open>abs\<close>) a token that is no numeral
  fails with the number-parsing error; in string context (\<open>getStringValue\<close>, the operand of
  \<open>ord\<close>) there is no error: the token itself, without its \<open>@"\<close> and \<open>"\<close> when it has
  them, is the text, and \<open>ord\<close> of a plain token is its first byte.
\<close>

theorem undefined_operand:
  assumes "lookup p tok = None"
  shows
   "(\<not> isNumber tok \<longrightarrow> (\<exists>f n k. getNumberValue p tok = Inl (NumError f n k)))
    \<and> (\<not> isNumber tok \<and> Fields e1 = [''abs'', tok] \<longrightarrow>
          (\<exists>f n k. evaluateExpression p e1 = Inl (NumError f n k)))
    \<and> (\<not> isNumber tok \<and> (Fields e2 = [''+'', tok, t] \<or> Fields e2 = [''-'', tok, t]
            \<or> Fields e2 = [''+'', t, tok] \<or> Fields e2 = [''-'', t, tok]) \<longrightarrow>
          (\<exists>err. evaluateExpression p e2 = Inl err))
    \<and> getStringValue p tok =
          Inr (if HasPrefix tok at_dquote \<and> HasSuffix tok dquote
               then TrimSuffix (TrimPrefix tok at_dquote) dquote else tok)
    \<and> (Fields e3 = [''ord'', tok] \<and> \<not> HasPrefix tok at_dquote \<and> \<not> HasPrefix tok dquote \<longrightarrow>
          evaluateExpression p e3 = Inr (of_char (hd tok)))"
proof -
  have num: "\<exists>f n k. getNumberValue p tok = Inl (NumError f n k)" if "\<not> isNumber tok"
  proof -
    from that obtain e where e: "parseNumber tok = Inl e"
      by (cases "parseNumber tok") (auto simp: isNumber_parseNumber)
    with parseNumber_error [OF e] show ?thesis by (auto simp: getNumberValue_def assms)
  qed
  have abs: "\<exists>f n k. evaluateExpression p e1 = Inl (NumError f n k)"
    if "\<not> isNumber tok" "Fields e1 = [''abs'', tok]"
    using num [OF that(1)] that(2) by (auto simp: evaluateExpression_def)
  have bin: "\<exists>err. evaluateExpression p e2 = Inl err"
    if "\<not> isNumber tok" "Fields e2 = [''+'', tok, t] \<or> Fields e2 = [''-'', tok, t]
            \<or> Fields e2 = [''+'', t, tok] \<or> Fields e2 = [''-'', t, tok]"
    using num [OF that(1)] that(2)
    by (auto simp: evaluateExpression_def binary_operands_def split: sum.splits)
  have str: "getStringValue p tok =
          Inr (if HasPrefix tok at_dquote \<and> HasSuffix tok dquote
               then TrimSuffix (TrimPrefix tok at_dquote) dquote else tok)"
    by (simp add: getStringValue_def assms)
  have ord: "evaluateExpression p e3 = Inr (of_char (hd tok))"
    if "Fields e3 = [''ord'', tok]" "\<not> HasPrefix tok at_dquote" "\<not> HasPrefix tok dquote"
  proof -
    have "tok \<in> set (Fields e3)" by (simp add: that(1))
    then have "tok \<noteq> []" by (rule Fields_nonempty)
    then obtain c cs where "tok = c # cs" by (cases tok) auto
    with that assms show ?thesis
      by (simp add: evaluateExpression_def getStringValue_def)
  qed
  from num abs bin str ord show ?thesis by blast
qed

text \<open>
  The claim as stated fails in string context: \<open>foo\<close> names no symbol, and \<open>?(ord foo)\<close>
  evaluates to 102, the code of \<open>f\<close>, without any error.
\<close>

theorem undefined_operand_counterexample:
  "lookup NewParser ''foo'' = None
   \<and> evaluateExpression NewParser ''ord foo'' = Inr 102
   \<and> handleConstant NewParser ''X := ?(ord foo);'' = (None, \<lparr>variables = [(''X'', IntV 102)]\<rparr>)"
  by code_simp

text \<open>
  Claim C5, as the code has it. Expressions do not nest, so the sum is bound to a constant
  first: after \<open>S := ?(+ A B);\<close> the declaration \<open>R := ?(- S B);\<close> binds \<open>R\<close> to the
  value of \<open>A\<close>, for all 64-bit values of \<open>A\<close> and \<open>B\<close> (literals or bound constants
  other than \<open>S\<close> itself), also when the addition wraps around.
\<close>

theorem add_then_subtract:
  assumes "Split (TrimSuffix line1 '';'') '':='' = [l1, r1]"
    and "isValidName (TrimSpace l1)"
    and "TrimSpace r1 = ''?('' @ e1 @ '')''"
    and "Fields e1 = [''+'', ta, tb]"
    and "Split (TrimSuffix line2 '';'') '':='' = [l2, r2]"
    and "isValidName (TrimSpace l2)"
    and "TrimSpace r2 = ''?('' @ e2 @ '')''"
    and "Fields e2 = [''-'', TrimSpace l1, tb]"
    and "getNumberValue p ta = Inr a"
    and "getNumberValue p tb = Inr b"
    and "tb \<noteq> TrimSpace l1"
  shows "handleConstant p line1 = (None, assign p (TrimSpace l1) (IntV (a + b)))
       \<and> handleConstant (assign p (TrimSpace l1) (IntV (a + b))) line2 =
           (None, assign (assign p (TrimSpace l1) (IntV (a + b))) (TrimSpace l2) (IntV a))"
proof -
  let ?p1 = "assign p (TrimSpace l1) (IntV (a + b))"
  note w1 = wrapped_expression [OF assms(3)]
  note w2 = wrapped_expression [OF assms(7)]
  have "evaluateExpression p e1 = Inr (a + b)"
    by (simp add: evaluateExpression_def binary_operands_def assms(4,9,10))
  then have 1: "handleConstant p line1 = (None, ?p1)"
    by (simp add: handleConstant_def Let_def assms(1,2) w1)
  have s: "getNumberValue ?p1 (TrimSpace l1) = Inr (a + b)"
    by (simp add: getNumberValue_def lookup_assign)
  have t: "getNumberValue ?p1 tb = Inr b"
    using assms(10,11) by (simp add: getNumberValue_def lookup_assign)
  have "evaluateExpression ?p1 e2 = Inr a"
    by (simp add: evaluateExpression_def binary_operands_def assms(8) s t)
  then have 2: "handleConstant ?p1 line2 = (None, assign ?p1 (TrimSpace l2) (IntV a))"
    by (simp add: handleConstant_def Let_def assms(5,6) w2)
  from 1 2 show ?thesis by blast
qed

text \<open>
  The claim as stated fails: the nested form \<open>?(- (?(+ 1 2)) 2)\<close> splits into five fields
  and is rejected as an invalid expression.
\<close>

theorem nested_expression_counterexample:
  "handleConstant NewParser ''X := ?(- (?(+ 1 2)) 2);'' = (Some ErrInvalidExpression, NewParser)"
  by code_simp


theorem undefined_operand_witness:
  "lookup NewParser ''foo'' = None
   \<and> \<not> isNumber ''foo''
   \<and> Fields ''abs foo'' = [''abs'', ''foo'']
   \<and> Fields ''+ 1 foo'' = [''+'', ''1'', ''foo'']
   \<and> Fields ''ord foo'' = [''ord'', ''foo'']
   \<and> \<not> HasPrefix ''foo'' at_dquote \<and> \<not> HasPrefix ''foo'' dquote
   \<and> (\<exists>f n k. getNumberValue NewParser ''foo'' = Inl (NumError f n k))
   \<and> (\<exists>f n k. evaluateExpression NewParser ''abs foo'' = Inl (NumError f n k))
   \<and> (\<exists>err. evaluateExpression NewParser ''+ 1 foo'' = Inl err)
   \<and> getStringValue NewParser ''foo'' = Inr ''foo''
   \<and> evaluateExpression NewParser ''ord foo'' = Inr 102"
proof -
  have 1: "lookup NewParser ''foo'' = None" by code_simp
  have 2: "\<not> isNumber ''foo''" by code_simp
  have 3: "Fields ''abs foo'' = [''abs'', ''foo'']" by code_simp
  have 4: "Fields ''+ 1 foo'' = [''+'', ''1'', ''foo'']" by code_simp
  have 5: "Fields ''ord foo'' = [''ord'', ''foo'']" by code_simp
  have 6: "\<not> HasPrefix ''foo'' at_dquote" "\<not> HasPrefix ''foo'' dquote" by code_simp+
  have 7: "(of_char (hd ''foo'') :: go_int) = 102" by simp
  note t = undefined_operand [OF 1, of "''abs foo''" "''+ 1 foo''" "''1''" "''ord foo''"]
  have a: "\<exists>f n k. getNumberValue NewParser ''foo'' = Inl (NumError f n k)"
    using t 2 by blast
  have b: "\<exists>f n k. evaluateExpression NewParser ''abs foo'' = Inl (NumError f n k)"
    using t 2 3 by blast
  have c: "\<exists>err. evaluateExpression NewParser ''+ 1 foo'' = Inl err"
    using t 2 4 by blast
  have d: "getStringValue NewParser ''foo'' = Inr ''foo''"
    using t 6 by simp
  have e: "evaluateExpression NewParser ''ord foo'' = Inr 102"
    using t 5 6 7 by simp
  from 1 2 3 4 5 6 a b c d e show ?thesis by blast
qed

theorem add_then_subtract_witness:
  "Split (TrimSuffix ''S := ?(+ 9223372036854775807 1);'' '';'') '':=''
      = [''S '', '' ?(+ 9223372036854775807 1)'']
   \<and> isValidName (TrimSpace ''S '')
   \<and> TrimSpace '' ?(+ 9223372036854775807 1)'' = ''?('' @ ''+ 9223372036854775807 1'' @ '')''
   \<and> Fields ''+ 9223372036854775807 1'' = [''+'', ''9223372036854775807'', ''1'']
   \<and> Split (TrimSuffix ''R := ?(- S 1);'' '';'') '':='' = [''R '', '' ?(- S 1)'']
   \<and> isValidName (TrimSpace ''R '')
   \<and> TrimSpace '' ?(- S 1)'' = ''?('' @ ''- S 1'' @ '')''
   \<and> Fields ''- S 1'' = [''-'', TrimSpace ''S '', ''1'']
   \<and> getNumberValue NewParser ''9223372036854775807'' = Inr 9223372036854775807
   \<and> getNumberValue NewParser ''1'' = Inr 1
   \<and> ''1'' \<noteq> TrimSpace ''S ''
   \<and> handleConstant NewParser ''S := ?(+ 9223372036854775807 1);'' =
        (None, \<lparr>variables = [(''S'', IntV 9223372036854775808)]\<rparr>)
   \<and> handleConstant \<lparr>variables = [(''S'', IntV 9223372036854775808)]\<rparr> ''R := ?(- S 1);'' =
        (None, \<lparr>variables = [(''S'', IntV 9223372036854775808),
                               (''R'', IntV 9223372036854775807)]\<rparr>)"
proof -
  have 1: "Split (TrimSuffix ''S := ?(+ 9223372036854775807 1);'' '';'') '':=''
      = [''S '', '' ?(+ 9223372036854775807 1)'']" by code_simp
  have 2: "isValidName (TrimSpace ''S '')" by code_simp
  have 3: "TrimSpace '' ?(+ 9223372036854775807 1)'' = ''?('' @ ''+ 9223372036854775807 1'' @ '')''"
    by code_simp
  have 4: "Fields ''+ 9223372036854775807 1'' = [''+'', ''9223372036854775807'', ''1'']"
    by code_simp
  have 5: "Split (TrimSuffix ''R := ?(- S 1);'' '';'') '':='' = [''R '', '' ?(- S 1)'']"
    by code_simp
  have 6: "isValidName (TrimSpace ''R '')" by code_simp
  have 7: "TrimSpace '' ?(- S 1)'' = ''?('' @ ''- S 1'' @ '')''" by code_simp
  have 8: "Fields ''- S 1'' = [''-'', TrimSpace ''S '', ''1'']" by code_simp
  have 9: "getNumberValue NewParser ''9223372036854775807'' = Inr 9223372036854775807"
    by code_simp
  have 10: "getNumberValue NewParser ''1'' = Inr 1" by code_simp
  have 11: "''1'' \<noteq> TrimSpace ''S ''" by code_simp
  have 12: "TrimSpace ''S '' = ''S''" "TrimSpace ''R '' = ''R''" by code_simp+
  have 13: "(9223372036854775807 + 1 :: go_int) = 9223372036854775808" by simp
  have "handleConstant NewParser ''S := ?(+ 9223372036854775807 1);'' =
        (None, \<lparr>variables = [(''S'', IntV 9223372036854775808)]\<rparr>)
   \<and> handleConstant \<lparr>variables = [(''S'', IntV 9223372036854775808)]\<rparr> ''R := ?(- S 1);'' =
        (None, \<lparr>variables = [(''S'', IntV 9223372036854775808),
                               (''R'', IntV 9223372036854775807)]\<rparr>)"
    using add_then_subtract [OF 1 2 3 4 5 6 7 8 9 10 11]
    by (simp add: 12 13 assign_def NewParser_def)
  with 1 2 3 4 5 6 7 8 9 10 11 show ?thesis by blast
qed

lemma code_point_ascii:
  "(of_char c :: nat) < 128 \<Longrightarrow> code_point_of_first_char (c # rest) = of_char c"
  by (simp add: code_point_of_first_char_def)

text \<open>
  Claim C3, as the code has it. In a declaration \<open>N := ?(ord S);\<close> whose text contains
  \<open>:=\<close> exactly once, let \<open>t\<close> be the text that \<open>S\<close> resolves to, and remove one pair of
  enclosing double quotes from \<open>t\<close> when it starts and ends with one. If what remains is
  non-empty and starts with an ASCII character, \<open>N\<close> is bound to the code point of that
  character. When \<open>:=\<close> does not occur exactly once (the operand contains one), the
  declaration aborts with the syntax error and nothing is bound.
\<close>

theorem ord_binds_first_character:
  "(length (Split (TrimSuffix line '';'') '':='') \<noteq> 2 \<longrightarrow>
      handleConstant p line = (Some ErrInvalidSyntax, p))
   \<and> (Split (TrimSuffix line '';'') '':='' = [l, r]
        \<and> isValidName (TrimSpace l)
        \<and> TrimSpace r = ''?('' @ expr @ '')''
        \<and> Fields expr = [''ord'', S]
        \<and> getStringValue p S = Inr t
        \<and> (if HasPrefix t dquote \<and> HasSuffix t dquote
            then TrimSuffix (TrimPrefix t dquote) dquote else t) = c # rest
        \<and> (of_char c :: nat) < 128 \<longrightarrow>
          handleConstant p line =
            (None, assign p (TrimSpace l) (IntV (of_nat (code_point_of_first_char (c # rest))))))"
proof (intro conjI impI)
  assume "length (Split (TrimSuffix line '';'') '':='') \<noteq> 2"
  then show "handleConstant p line = (Some ErrInvalidSyntax, p)"
    by (rule handleConstant_not_two_parts)
next
  assume h: "Split (TrimSuffix line '';'') '':='' = [l, r]
        \<and> isValidName (TrimSpace l)
        \<and> TrimSpace r = ''?('' @ expr @ '')''
        \<and> Fields expr = [''ord'', S]
        \<and> getStringValue p S = Inr t
        \<and> (if HasPrefix t dquote \<and> HasSuffix t dquote
            then TrimSuffix (TrimPrefix t dquote) dquote else t) = c # rest
        \<and> (of_char c :: nat) < 128"
  then have s: "Split (TrimSuffix line '';'') '':='' = [l, r]"
    and v: "isValidName (TrimSpace l)"
    and e: "TrimSpace r = ''?('' @ expr @ '')''"
    and f: "Fields expr = [''ord'', S]"
    and g: "getStringValue p S = Inr t"
    and u: "(if HasPrefix t dquote \<and> HasSuffix t dquote
            then TrimSuffix (TrimPrefix t dquote) dquote else t) = c # rest"
    and ascii: "(of_char c :: nat) < 128"
    by blast+
  note w = wrapped_expression [OF e]
  have ne: "t \<noteq> []"
  proof
    assume "t = []"
    with u show False
      by (simp add: TrimSuffix_def TrimPrefix_def HasPrefix_def dquote_def split: if_splits)
  qed
  have "evaluateExpression p expr = Inr (of_char c)"
    using ne by (simp add: evaluateExpression_def f g u)
  moreover have "(of_nat (code_point_of_first_char (c # rest)) :: go_int) = of_char c"
    by (simp add: code_point_ascii [OF ascii] of_nat_of_char)
  ultimately show "handleConstant p line =
            (None, assign p (TrimSpace l) (IntV (of_nat (code_point_of_first_char (c # rest)))))"
    by (simp add: handleConstant_def Let_def s v w)
qed

text \<open>
  The claim as stated fails in two ways. The token \<open>"Z"\<close> resolves to the three-character
  text \<open>"Z"\<close>, whose first character is the double quote (code point 34), but the
  constant is bound to 90, the code of \<open>Z\<close>. And the operand \<open>a:=b\<close> resolves to a
  non-empty text whose first character has code point 97, and \<open>ord\<close> of it evaluates
  to 97, but the declaration \<open>N := ?(ord a:=b);\<close> binds nothing: it aborts with the syntax
  error.
\<close>

theorem ord_binds_first_character_counterexample:
  "getStringValue NewParser (dquote @ ''Z'' @ dquote) = Inr (dquote @ ''Z'' @ dquote)
   \<and> dquote @ ''Z'' @ dquote \<noteq> []
   \<and> code_point_of_first_char (dquote @ ''Z'' @ dquote) = 34
   \<and> handleConstant NewParser (''X := ?(ord '' @ dquote @ ''Z'' @ dquote @ '');'')
       = (None, \<lparr>variables = [(''X'', IntV 90)]\<rparr>)
   \<and> getStringValue NewParser ''a:=b'' = Inr ''a:=b''
   \<and> code_point_of_first_char ''a:=b'' = 97
   \<and> evaluateExpression NewParser ''ord a:=b'' = Inr 97
   \<and> handleConstant NewParser ''N := ?(ord a:=b);'' = (Some ErrInvalidSyntax, NewParser)"
  by code_simp

text \<open>For a text that starts with a character outside ASCII, \<open>int(str[0])\<close> is the first
  byte of its UTF-8 encoding: 195 for U+00E9, whose code point is 233.\<close>

lemma ord_of_non_ascii_text:
  "getStringValue NewParser (at_dquote @ [CHR 0xC3, CHR 0xA9] @ dquote) = Inr [CHR 0xC3, CHR 0xA9]
   \<and> code_point_of_first_char [CHR 0xC3, CHR 0xA9] = 233
   \<and> handleConstant NewParser (''X := ?(ord '' @ at_dquote @ [CHR 0xC3, CHR 0xA9] @ dquote @ '');'')
       = (None, \<lparr>variables = [(''X'', IntV 195)]\<rparr>)"
  by code_simp


theorem ord_binds_first_character_witness:
  "length (Split (TrimSuffix ''N := ?(ord a:=b);'' '';'') '':='') \<noteq> 2
   \<and> handleConstant NewParser ''N := ?(ord a:=b);'' = (Some ErrInvalidSyntax, NewParser)
   \<and> Split (TrimSuffix (''CHAR_CODE := ?(ord '' @ dquote @ ''Z'' @ dquote @ '');'') '';'') '':=''
      = [''CHAR_CODE '', '' ?(ord '' @ dquote @ ''Z'' @ dquote @ '')'']
   \<and> isValidName (TrimSpace ''CHAR_CODE '')
   \<and> TrimSpace ('' ?(ord '' @ dquote @ ''Z'' @ dquote @ '')'')
      = ''?('' @ (''ord '' @ dquote @ ''Z'' @ dquote) @ '')''
   \<and> Fields (''ord '' @ dquote @ ''Z'' @ dquote) = [''ord'', dquote @ ''Z'' @ dquote]
   \<and> getStringValue NewParser (dquote @ ''Z'' @ dquote) = Inr (dquote @ ''Z'' @ dquote)
   \<and> (if HasPrefix (dquote @ ''Z'' @ dquote) dquote \<and> HasSuffix (dquote @ ''Z'' @ dquote) dquote
       then TrimSuffix (TrimPrefix (dquote @ ''Z'' @ dquote) dquote) dquote
       else dquote @ ''Z'' @ dquote) = CHR ''Z'' # []
   \<and> (of_char CHR ''Z'' :: nat) < 128
   \<and> handleConstant NewParser (''CHAR_CODE := ?(ord '' @ dquote @ ''Z'' @ dquote @ '');'')
      = (None, \<lparr>variables = [(''CHAR_CODE'', IntV 90)]\<rparr>)"
proof -
  have 0: "length (Split (TrimSuffix ''N := ?(ord a:=b);'' '';'') '':='') \<noteq> 2" by code_simp
  have 1: "Split (TrimSuffix (''CHAR_CODE := ?(ord '' @ dquote @ ''Z'' @ dquote @ '');'') '';'') '':=''
      = [''CHAR_CODE '', '' ?(ord '' @ dquote @ ''Z'' @ dquote @ '')'']" by code_simp
  have 2: "isValidName (TrimSpace ''CHAR_CODE '')" by code_simp
  have 3: "TrimSpace ('' ?(ord '' @ dquote @ ''Z'' @ dquote @ '')'')
      = ''?('' @ (''ord '' @ dquote @ ''Z'' @ dquote) @ '')''" by code_simp
  have 4: "Fields (''ord '' @ dquote @ ''Z'' @ dquote) = [''ord'', dquote @ ''Z'' @ dquote]"
    by code_simp
  have 5: "getStringValue NewParser (dquote @ ''Z'' @ dquote) = Inr (dquote @ ''Z'' @ dquote)"
    by code_simp
  have 6: "(if HasPrefix (dquote @ ''Z'' @ dquote) dquote \<and> HasSuffix (dquote @ ''Z'' @ dquote) dquote
       then TrimSuffix (TrimPrefix (dquote @ ''Z'' @ dquote) dquote) dquote
       else dquote @ ''Z'' @ dquote) = CHR ''Z'' # []" by code_simp
  have 7: "(of_char CHR ''Z'' :: nat) < 128" by simp
  have 8: "TrimSpace ''CHAR_CODE '' = ''CHAR_CODE''" by code_simp
  have a: "handleConstant NewParser ''N := ?(ord a:=b);'' = (Some ErrInvalidSyntax, NewParser)"
    using ord_binds_first_character [where line = "''N := ?(ord a:=b);''" and p = NewParser] 0
    by blast
  have "handleConstant NewParser (''CHAR_CODE := ?(ord '' @ dquote @ ''Z'' @ dquote @ '');'')
      = (None, assign NewParser (TrimSpace ''CHAR_CODE '')
           (IntV (of_nat (code_point_of_first_char (CHR ''Z'' # [])))))"
    using ord_binds_first_character
      [where line = "''CHAR_CODE := ?(ord '' @ dquote @ ''Z'' @ dquote @ '');''"
         and p = NewParser and l = "''CHAR_CODE ''"
         and r = "'' ?(ord '' @ dquote @ ''Z'' @ dquote @ '')''"
         and expr = "''ord '' @ dquote @ ''Z'' @ dquote"
         and S = "dquote @ ''Z'' @ dquote" and t = "dquote @ ''Z'' @ dquote"
         and c = "CHR ''Z''" and rest = "[]"]
      1 2 3 4 5 6 7
    by blast
  then have b: "handleConstant NewParser (''CHAR_CODE := ?(ord '' @ dquote @ ''Z'' @ dquote @ '');'')
      = (None, \<lparr>variables = [(''CHAR_CODE'', IntV 90)]\<rparr>)"
    by (simp add: 8 code_point_of_first_char_def assign_def NewParser_def)
  from 0 a 1 2 3 4 5 6 7 b show ?thesis by blast
qed

subsection \<open>Octal literals and decimal output\<close>

lemma octal_digit:
  assumes "c \<in> set ''01234567''"
  shows "digit_val c = Some (of_char c - 48)" and "(0 :: int) \<le> of_char c - 48"
    and "(of_char c :: int) - 48 < 8" and "c \<noteq> CHR ''+''" and "c \<noteq> CHR ''-''"
  using assms by (auto simp: digit_val_def)

lemma octal_foldl_mono:
  "\<forall>c \<in> set ds. c \<in> set ''01234567'' \<Longrightarrow> (0 :: int) \<le> n \<Longrightarrow>
     n \<le> foldl (\<lambda>n c. 8 * n + (of_char c - 48)) n ds"
proof (induction ds arbitrary: n)
  case Nil
  show ?case by simp
next
  case (Cons c cs)
  have d: "(0 :: int) \<le> of_char c - 48" using Cons.prems(1) by (intro octal_digit) simp
  then have "0 \<le> 8 * n + (of_char c - 48)" using Cons.prems(2) by simp
  with Cons.IH [of "8 * n + (of_char c - 48)"] Cons.prems(1)
  have "8 * n + (of_char c - 48) \<le> foldl (\<lambda>n c. 8 * n + (of_char c - 48)) (8 * n + (of_char c - 48)) cs"
    by simp
  with d Cons.prems(2) show ?case by simp
qed

lemma parse_digits_octal:
  "\<forall>c \<in> set ds. c \<in> set ''01234567'' \<Longrightarrow> (0 :: int) \<le> n \<Longrightarrow>
   foldl (\<lambda>n c. 8 * n + (of_char c - 48)) n ds \<le> M \<Longrightarrow>
     parse_digits 8 M n ds = Inr (foldl (\<lambda>n c. 8 * n + (of_char c - 48)) n ds)"
proof (induction ds arbitrary: n)
  case Nil
  show ?case by simp
next
  case (Cons c cs)
  let ?n = "8 * n + (of_char c - 48)"
  have c: "c \<in> set ''01234567''" using Cons.prems(1) by simp
  note d = octal_digit [OF c]
  have n0: "0 \<le> ?n" using d(2) Cons.prems(2) by simp
  have rest: "\<forall>c \<in> set cs. c \<in> set ''01234567''" using Cons.prems(1) by simp
  have "?n \<le> foldl (\<lambda>n c. 8 * n + (of_char c - 48)) ?n cs"
    by (rule octal_foldl_mono [OF rest n0])
  with Cons.prems(3) have le: "?n \<le> M" by simp
  have "parse_digits 8 M ?n cs = Inr (foldl (\<lambda>n c. 8 * n + (of_char c - 48)) ?n cs)"
    using Cons.IH [OF rest n0] Cons.prems(3) by simp
  with d(1,3) le show ?case by (simp add: mult.commute)
qed

lemma ParseInt_octal:
  assumes "ds \<noteq> []" and "\<forall>c \<in> set ds. c \<in> set ''01234567''" and "octal_value ds < 2 ^ 63"
  shows "ParseInt ds 8 64 = Inr (octal_value ds)"
proof -
  obtain c cs where ds: "ds = c # cs" using assms(1) by (cases ds) auto
  then have c: "c \<in> set ''01234567''" using assms(2) by simp
  note d = octal_digit [OF c]
  have "parse_digits 8 (2 ^ 64 - 1) 0 ds = Inr (octal_value ds)"
    unfolding octal_value_def
    using assms(3) by (intro parse_digits_octal [OF assms(2)]) (simp_all add: octal_value_def)
  then show ?thesis
    using assms(1,3) d(4,5) by (simp add: ParseInt_def ParseUint_def Let_def ds)
qed

lemma parseNumber_octal:
  assumes "ds \<noteq> []" and "\<forall>c \<in> set ds. c \<in> set ''01234567''" and "octal_value ds < 2 ^ 63"
  shows "parseNumber (''0o'' @ ds) = Inr (word_of_int (octal_value ds))"
    and "isNumber (''0o'' @ ds)"
  using ParseInt_octal [OF assms]
  by (simp_all add: parseNumber_def isNumber_def HasPrefix_def)

lemma octal_value_nonneg:
  "\<forall>c \<in> set ds. c \<in> set ''01234567'' \<Longrightarrow> 0 \<le> octal_value ds"
  unfolding octal_value_def by (rule octal_foldl_mono) simp_all

lemma sint_in_range:
  "0 \<le> v \<Longrightarrow> v < 2 ^ 63 \<Longrightarrow> sint (word_of_int v :: go_int) = v"
  by (simp add: sint_sbintrunc' signed_take_bit_int_eq_self)

lemma decimal_digit_char:
  assumes "(0 :: int) \<le> d" and "d < 10"
  shows "char_of (48 + d) \<in> set ''0123456789''" and "(of_char (char_of (48 + d)) :: int) - 48 = d"
    and "char_of (48 + d) = CHR ''0'' \<longleftrightarrow> d = 0"
proof -
  define P where "P k \<longleftrightarrow> char_of (48 + k) \<in> set ''0123456789''
      \<and> (of_char (char_of (48 + k)) :: int) - 48 = k
      \<and> (char_of (48 + k) = CHR ''0'' \<longleftrightarrow> k = 0)" for k :: int
  have "P 0" "P 1" "P 2" "P 3" "P 4" "P 5" "P 6" "P 7" "P 8" "P 9"
    by (simp_all add: P_def char_of_def)
  moreover from assms
  have "d = 0 \<or> d = 1 \<or> d = 2 \<or> d = 3 \<or> d = 4 \<or> d = 5 \<or> d = 6 \<or> d = 7 \<or> d = 8 \<or> d = 9"
    by arith
  ultimately have "P d" by blast
  then show "char_of (48 + d) \<in> set ''0123456789''"
    and "(of_char (char_of (48 + d)) :: int) - 48 = d"
    and "char_of (48 + d) = CHR ''0'' \<longleftrightarrow> d = 0"
    unfolding P_def by blast+
qed

lemma digits_of_nonempty: "digits_of n \<noteq> []"
  by (subst digits_of.simps) simp

lemma digits_of_rendering:
  "(0 :: int) \<le> n \<Longrightarrow>
     (\<forall>c \<in> set (digits_of n). c \<in> set ''0123456789'')
     \<and> foldl (\<lambda>n c. 10 * n + (of_char c - 48)) 0 (digits_of n) = n
     \<and> (hd (digits_of n) = CHR ''0'' \<longrightarrow> n = 0)"
proof (induction n rule: digits_of.induct)
  case (1 n)
  show ?case
  proof (cases "n < 10")
    case True
    with "1.prems" decimal_digit_char [of n] show ?thesis
      by (simp add: digits_of.simps [of n])
  next
    case False
    have m: "0 \<le> n mod 10" "n mod 10 < 10" by simp_all
    note dc = decimal_digit_char [OF m]
    have q: "0 \<le> n div 10" "0 < n div 10" using False "1.prems" by simp_all
    note ih = "1.IH" [OF False q(1)]
    have e: "digits_of n = digits_of (n div 10) @ [char_of (48 + n mod 10)]"
      using False by (simp add: digits_of.simps [of n])
    have "\<forall>c \<in> set (digits_of n). c \<in> set ''0123456789''"
      unfolding e using ih dc(1) by auto
    moreover have "foldl (\<lambda>n c. 10 * n + (of_char c - 48)) 0 (digits_of n) = n"
      unfolding e using ih dc(2) by simp
    moreover have "hd (digits_of n) \<noteq> CHR ''0''"
      unfolding e using ih q(2) digits_of_nonempty [of "n div 10"] by auto
    ultimately show ?thesis by blast
  qed
qed

lemma itoa_rendering: "0 \<le> n \<Longrightarrow> decimal_rendering (itoa n) n"
proof -
  assume n: "0 \<le> n"
  note r = digits_of_rendering [OF n]
  have "digits_of 0 = ''0''" by (simp add: digits_of.simps [of 0] char_of_def)
  with r n show ?thesis
    by (auto simp: decimal_rendering_def itoa_def digits_of_nonempty)
qed

text \<open>
  Claim C6, as the code has it. A declaration whose value is \<open>0o\<close> followed by octal
  digits of a value below \<open>2^63\<close> binds the name to that value, and a key-value line
  that refers to the name then emits \<open>key = e\<close>, where \<open>e\<close> is the decimal rendering of
  the base-8 value of the digits, without leading zeros.
\<close>

theorem octal_literal_emitted_in_decimal:
  assumes "Split (TrimSuffix line '';'') '':='' = [l, r]"
    and "isValidName (TrimSpace l)"
    and "TrimSpace r = ''0o'' @ ds"
    and "ds \<noteq> []"
    and "\<forall>c \<in> set ds. c \<in> set ''01234567''"
    and "octal_value ds < 2 ^ 63"
    and "SplitN kvline ''='' 2 = [kl, kr]"
    and "TrimSpace kr = TrimSpace l"
  shows "handleConstant p line =
           (None, assign p (TrimSpace l) (IntV (word_of_int (octal_value ds))))
       \<and> handleKeyValue (assign p (TrimSpace l) (IntV (word_of_int (octal_value ds)))) output kvline =
           (None, output @ TrimSpace kl @ '' = '' @ itoa (octal_value ds) @ newline)
       \<and> decimal_rendering (itoa (octal_value ds)) (octal_value ds)"
proof -
  let ?v = "octal_value ds"
  let ?p1 = "assign p (TrimSpace l) (IntV (word_of_int ?v))"
  note num = parseNumber_octal [OF assms(4,5,6)]
  have shape: "\<not> HasPrefix (''0o'' @ ds) ''?(''" "\<not> HasPrefix (''0o'' @ ds) ''[''"
    "\<not> HasPrefix (''0o'' @ ds) at_dquote"
    by (simp_all add: HasPrefix_def at_dquote_def)
  have 1: "handleConstant p line = (None, ?p1)"
    using num shape by (simp add: handleConstant_def Let_def assms(1,2,3))
  have v0: "0 \<le> ?v" by (rule octal_value_nonneg [OF assms(5)])
  have "resolveValue ?p1 (TrimSpace l) = Inr (IntV (word_of_int ?v))"
    by (simp add: resolveValue_def lookup_assign)
  then have 2: "handleKeyValue ?p1 output kvline =
           (None, output @ TrimSpace kl @ '' = '' @ itoa ?v @ newline)"
    by (simp add: handleKeyValue_def Let_def assms(7,8) format_value_def
        sint_in_range [OF v0 assms(6)])
  from 1 2 itoa_rendering [OF v0] show ?thesis by blast
qed

text \<open>
  The claim as stated fails for a literal whose value does not fit 64 bits: 22 sevens are
  \<open>2^66 - 1\<close>; \<open>isNumber\<close> rejects the token, it is bound as text, and the key-value line
  emits the quoted literal, not a decimal number.
\<close>

theorem octal_literal_emitted_in_decimal_counterexample:
  "processLines NewParser [] [''B := 0o7777777777777777777777;'', ''b = B'']
     = (None, \<lparr>variables = [(''B'', StrV ''0o7777777777777777777777'')]\<rparr>,
        ''b = '' @ dquote @ ''0o7777777777777777777777'' @ dquote @ newline)
   \<and> octal_value ''7777777777777777777777'' = 73786976294838206463"
  by code_simp


theorem octal_literal_emitted_in_decimal_witness:
  "Split (TrimSuffix ''OCTAL := 0o755;'' '';'') '':='' = [''OCTAL '', '' 0o755'']
   \<and> isValidName (TrimSpace ''OCTAL '')
   \<and> TrimSpace '' 0o755'' = ''0o'' @ ''755''
   \<and> ''755'' \<noteq> []
   \<and> set ''755'' \<subseteq> set ''01234567''
   \<and> octal_value ''755'' < 2 ^ 63
   \<and> SplitN ''mode = OCTAL'' ''='' 2 = [''mode '', '' OCTAL'']
   \<and> TrimSpace '' OCTAL'' = TrimSpace ''OCTAL ''
   \<and> handleConstant NewParser ''OCTAL := 0o755;'' = (None, \<lparr>variables = [(''OCTAL'', IntV 493)]\<rparr>)
   \<and> handleKeyValue \<lparr>variables = [(''OCTAL'', IntV 493)]\<rparr> [] ''mode = OCTAL''
        = (None, ''mode = 493'' @ newline)
   \<and> decimal_rendering ''493'' 493"
proof -
  have 1: "Split (TrimSuffix ''OCTAL := 0o755;'' '';'') '':='' = [''OCTAL '', '' 0o755'']"
    by code_simp
  have 2: "isValidName (TrimSpace ''OCTAL '')" by code_simp
  have 3: "TrimSpace '' 0o755'' = ''0o'' @ ''755''" by code_simp
  have 4: "''755'' \<noteq> []" by simp
  have 5: "\<forall>c \<in> set ''755''. c \<in> set ''01234567''" by simp
  have v: "octal_value ''755'' = 493" by (simp add: octal_value_def)
  have 6: "octal_value ''755'' < 2 ^ 63" by (simp add: v)
  have 7: "SplitN ''mode = OCTAL'' ''='' 2 = [''mode '', '' OCTAL'']" by code_simp
  have 8: "TrimSpace '' OCTAL'' = TrimSpace ''OCTAL ''" by code_simp
  have t: "TrimSpace ''OCTAL '' = ''OCTAL''" "TrimSpace ''mode '' = ''mode''" by code_simp+
  have i: "itoa 493 = ''493''" by code_simp
  have "handleConstant NewParser ''OCTAL := 0o755;'' = (None, \<lparr>variables = [(''OCTAL'', IntV 493)]\<rparr>)
   \<and> handleKeyValue \<lparr>variables = [(''OCTAL'', IntV 493)]\<rparr> [] ''mode = OCTAL''
        = (None, ''mode = 493'' @ newline)
   \<and> decimal_rendering ''493'' 493"
    using octal_literal_emitted_in_decimal [OF 1 2 3 4 5 6 7 8, of NewParser "[]"]
    by (simp add: v t i assign_def NewParser_def)
  moreover have "set ''755'' \<subseteq> set ''01234567''" by simp
  ultimately show ?thesis using 1 2 3 4 6 7 8 by blast
qed


subsection \<open>Block comments and anonymous arrays\<close>

lemma Index_close:
  "\<not> Contains c ''-}'' \<Longrightarrow> Index (c @ ''-}'' @ t) ''-}'' = Some (length c)"
proof (induction c)
  case Nil
  show ?case by (simp add: HasPrefix_def)
next
  case (Cons x xs)
  from Cons.prems have np: "\<not> HasPrefix (x # xs) ''-}''" and nc: "\<not> Contains xs ''-}''"
    by (auto simp: Contains_def split: if_splits)
  have "\<not> HasPrefix (x # xs @ ''-}'' @ t) ''-}''"
    using np by (cases xs) (auto simp: HasPrefix_def)
  with Cons.IH [OF nc] show ?case by simp
qed

lemma removeMultilineComments_leading_comment:
  assumes "\<not> Contains c ''-}''"
  shows "removeMultilineComments (newline @ ''{-'' @ c @ ''-}'' @ t) = newline @ removeMultilineComments t"
proof -
  let ?s = "newline @ ''{-'' @ c @ ''-}'' @ t"
  have i: "Index ?s ''{-'' = Some 1"
    by (simp add: newline_def HasPrefix_def)
  have d: "drop (1 + 2) ?s = c @ ''-}'' @ t" by (simp add: newline_def)
  have j: "Index (drop (1 + 2) ?s) ''-}'' = Some (length c)"
    unfolding d by (rule Index_close [OF assms])
  have k: "drop (1 + 2 + length c + 2) ?s = t" by (simp add: newline_def)
  have l: "take 1 ?s = newline" by (simp add: newline_def)
  show ?thesis
    by (subst removeMultilineComments.simps) (simp only: i j k l option.case)
qed

text \<open>
  Claim C2. For an input that consists of a block comment \<open>{- c -}\<close> (any body \<open>c\<close>, over
  any number of lines, that does not itself contain \<open>-}\<close>), followed by the declaration
  \<open>VALUE := 42;\<close>, the section line \<open>[section]\<close> and the key-value line \<open>key = VALUE\<close>,
  laid out as in the repository's test, \<open>Parse\<close> succeeds and writes exactly
  \<open>[section]\nkey = 42\n\<close>: the comment and the declaration contribute nothing.
\<close>

theorem block_comment_example:
  assumes "\<not> Contains c ''-}''"
    and "files w inputPath =
           Some (newline @ ''{-'' @ c @ ''-}'' @ newline @ ''VALUE := 42;'' @ newline @ newline
                 @ ''[section]'' @ newline @ ''key = VALUE'' @ newline)"
    and "outputPath \<notin> denied w"
  shows "Parse NewParser w inputPath outputPath =
           (None, \<lparr>variables = [(''VALUE'', IntV 42)]\<rparr>,
            w\<lparr>files := (files w)(outputPath \<mapsto> ''[section]'' @ newline @ ''key = 42'' @ newline)\<rparr>)"
proof -
  let ?t = "newline @ ''VALUE := 42;'' @ newline @ newline
                 @ ''[section]'' @ newline @ ''key = VALUE'' @ newline"
  have r: "ReadFile w inputPath = Inr (newline @ ''{-'' @ c @ ''-}'' @ ?t)"
    by (simp add: ReadFile_def assms(2))
  have t: "removeMultilineComments ?t = ?t" by code_simp
  have lines: "processLines NewParser [] (Split (newline @ ?t) newline) =
      (None, \<lparr>variables = [(''VALUE'', IntV 42)]\<rparr>, ''[section]'' @ newline @ ''key = 42'' @ newline)"
    by code_simp
  show ?thesis
    unfolding Parse_def r
    by (simp only: removeMultilineComments_leading_comment [OF assms(1)] t lines
        sum.case prod.case option.case WriteFile_def assms(3) if_False)
qed

theorem block_comment_example_witness:
  "\<not> Contains (newline @ '' This comment'' @ newline @ '' is ignored'' @ newline) ''-}''
   \<and> files \<lparr>files = [''in.conf'' \<mapsto>
              newline @ ''{-'' @ (newline @ '' This comment'' @ newline @ '' is ignored'' @ newline)
              @ ''-}'' @ newline @ ''VALUE := 42;'' @ newline @ newline
              @ ''[section]'' @ newline @ ''key = VALUE'' @ newline], denied = {}\<rparr> ''in.conf''
       = Some (newline @ ''{-'' @ (newline @ '' This comment'' @ newline @ '' is ignored'' @ newline)
              @ ''-}'' @ newline @ ''VALUE := 42;'' @ newline @ newline
              @ ''[section]'' @ newline @ ''key = VALUE'' @ newline)
   \<and> ''out.toml'' \<notin> denied \<lparr>files = [''in.conf'' \<mapsto>
              newline @ ''{-'' @ (newline @ '' This comment'' @ newline @ '' is ignored'' @ newline)
              @ ''-}'' @ newline @ ''VALUE := 42;'' @ newline @ newline
              @ ''[section]'' @ newline @ ''key = VALUE'' @ newline], denied = {}\<rparr>
   \<and> (case Parse NewParser \<lparr>files = [''in.conf'' \<mapsto>
              newline @ ''{-'' @ (newline @ '' This comment'' @ newline @ '' is ignored'' @ newline)
              @ ''-}'' @ newline @ ''VALUE := 42;'' @ newline @ newline
              @ ''[section]'' @ newline @ ''key = VALUE'' @ newline], denied = {}\<rparr>
              ''in.conf'' ''out.toml'' of
         (err, p, w') \<Rightarrow> err = None \<and> files w' ''out.toml''
              = Some (''[section]'' @ newline @ ''key = 42'' @ newline))"
proof -
  let ?c = "newline @ '' This comment'' @ newline @ '' is ignored'' @ newline"
  let ?w = "\<lparr>files = [''in.conf'' \<mapsto>
              newline @ ''{-'' @ ?c
              @ ''-}'' @ newline @ ''VALUE := 42;'' @ newline @ newline
              @ ''[section]'' @ newline @ ''key = VALUE'' @ newline], denied = {}\<rparr>"
  have 1: "\<not> Contains ?c ''-}''" by code_simp
  have 2: "files ?w ''in.conf''
       = Some (newline @ ''{-'' @ ?c
              @ ''-}'' @ newline @ ''VALUE := 42;'' @ newline @ newline
              @ ''[section]'' @ newline @ ''key = VALUE'' @ newline)" by simp
  have 3: "''out.toml'' \<notin> denied ?w" by simp
  have "case Parse NewParser ?w ''in.conf'' ''out.toml'' of
         (err, p, w') \<Rightarrow> err = None \<and> files w' ''out.toml''
              = Some (''[section]'' @ newline @ ''key = 42'' @ newline)"
    by (simp only: block_comment_example [OF 1 2 3]) simp
  with 1 2 3 show ?thesis by blast
qed

subsection \<open>Lines that do not mention a synthesized name\<close>

lemma HasPrefix_prefix: "HasPrefix s pre \<longleftrightarrow> prefix pre s"
proof
  assume "HasPrefix s pre"
  then have "s = pre @ drop (length pre) s"
    unfolding HasPrefix_def by (metis append_take_drop_id)
  then show "prefix pre s" by (metis prefixI)
next
  assume "prefix pre s"
  then show "HasPrefix s pre" by (auto simp: prefix_def HasPrefix_def)
qed

lemma Contains_sublist: "Contains s x \<longleftrightarrow> sublist x s"
proof (induction s)
  case Nil
  show ?case by (simp add: Contains_def)
next
  case (Cons c cs)
  have "Contains (c # cs) x \<longleftrightarrow> HasPrefix (c # cs) x \<or> Contains cs x"
    by (simp add: Contains_def)
  with Cons show ?case by (simp add: sublist_Cons_right HasPrefix_prefix)
qed

lemma not_Contains_sublist: "\<not> Contains s x \<Longrightarrow> sublist t s \<Longrightarrow> \<not> Contains t x"
  unfolding Contains_sublist by (blast intro: sublist_order.order.trans)

lemma sublist_TrimLeft: "sublist (TrimLeft s) s"
proof (induction s rule: TrimLeft.induct)
  case (1 s)
  show ?case
  proof (cases "leading_space s = 0")
    case True
    then show ?thesis by (simp add: TrimLeft.simps [of s])
  next
    case False
    have "sublist (TrimLeft (drop (leading_space s) s)) (drop (leading_space s) s)"
      by (rule "1.IH" [OF False])
    then have "sublist (TrimLeft (drop (leading_space s) s)) s"
      by (rule sublist_order.order.trans) (rule sublist_drop)
    with False show ?thesis by (simp add: TrimLeft.simps [of s])
  qed
qed

lemma sublist_TrimRight: "sublist (TrimRight s) s"
proof (induction s rule: TrimRight.induct)
  case (1 s)
  show ?case
  proof (cases "trailing_space s = 0")
    case True
    then show ?thesis by (simp add: TrimRight.simps [of s])
  next
    case False
    have "sublist (TrimRight (take (length s - trailing_space s) s)) (take (length s - trailing_space s) s)"
      by (rule "1.IH" [OF False])
    then have "sublist (TrimRight (take (length s - trailing_space s) s)) s"
      by (rule sublist_order.order.trans) (rule sublist_take)
    with False show ?thesis by (simp add: TrimRight.simps [of s])
  qed
qed

lemma sublist_TrimSpace: "sublist (TrimSpace s) s"
  unfolding TrimSpace_def
  by (rule sublist_order.order.trans [OF sublist_TrimRight sublist_TrimLeft])

lemma sublist_TrimPrefix: "sublist (TrimPrefix s pre) s"
  by (simp add: TrimPrefix_def)

lemma sublist_TrimSuffix: "sublist (TrimSuffix s suf) s"
  by (simp add: TrimSuffix_def)

lemma sublist_Split: "x \<in> set (Split s sep) \<Longrightarrow> sublist x s"
proof (induction s sep rule: Split.induct)
  case (1 s sep)
  show ?case
  proof (cases "sep = []")
    case True
    with "1.prems" obtain c where "c \<in> set s" "x = [c]"
      by (auto simp: Split.simps [of s "[]"])
    then obtain u v where "s = u @ c # v" by (meson split_list)
    with \<open>x = [c]\<close> have "s = u @ x @ v" by simp
    then show ?thesis unfolding sublist_def by blast
  next
    case ne: False
    show ?thesis
    proof (cases "Index s sep")
      case None
      with ne "1.prems" show ?thesis by (simp add: Split.simps [of s sep])
    next
      case (Some m)
      with ne "1.prems" have "x = take m s \<or> x \<in> set (Split (drop (m + length sep) s) sep)"
        by (simp add: Split.simps [of s sep])
      then show ?thesis
      proof
        assume "x = take m s"
        then show ?thesis by simp
      next
        assume "x \<in> set (Split (drop (m + length sep) s) sep)"
        then have "sublist x (drop (m + length sep) s)" by (rule "1.IH" [OF ne Some])
        then show ?thesis by (rule sublist_order.order.trans) (rule sublist_drop)
      qed
    qed
  qed
qed

lemma sublist_SplitN: "x \<in> set (SplitN s sep n) \<Longrightarrow> sublist x s"
proof (induction s sep n rule: SplitN.induct)
  case (1 s sep)
  then show ?case by simp
next
  case (2 s sep)
  then show ?case by simp
next
  case (3 s sep n)
  show ?case
  proof (cases "Index s sep")
    case None
    with "3.prems" show ?thesis by simp
  next
    case (Some m)
    with "3.prems" have "x = take m s \<or> x \<in> set (SplitN (drop (m + length sep) s) sep (Suc n))"
      by simp
    then show ?thesis
    proof
      assume "x = take m s"
      then show ?thesis by simp
    next
      assume "x \<in> set (SplitN (drop (m + length sep) s) sep (Suc n))"
      then have "sublist x (drop (m + length sep) s)" by (rule "3.IH" [OF Some])
      then show ?thesis by (rule sublist_order.order.trans) (rule sublist_drop)
    qed
  qed
qed

lemma sublist_fields_from: "t \<in> set (fields_from cur s) \<Longrightarrow> sublist t (cur @ s)"
proof (induction cur s rule: fields_from.induct)
  case (1 cur s)
  show ?case
  proof (cases "s = []")
    case True
    with "1.prems" show ?thesis by (auto simp: fields_from.simps [of cur "[]"] split: if_splits)
  next
    case ne: False
    show ?thesis
    proof (cases "leading_space s = 0")
      case True
      with ne "1.prems" have "t \<in> set (fields_from (cur @ [hd s]) (tl s))"
        by (simp add: fields_from.simps [of cur s])
      then have "sublist t ((cur @ [hd s]) @ tl s)" by (rule "1.IH"(1) [OF ne True])
      with ne show ?thesis by simp
    next
      case False
      with ne "1.prems" have "t \<in> set (if cur = [] then [] else [cur])
          \<or> t \<in> set (fields_from [] (drop (leading_space s) s))"
        by (auto simp: fields_from.simps [of cur s] split: if_splits)
      then show ?thesis
      proof
        assume "t \<in> set (if cur = [] then [] else [cur])"
        then have "t = cur" by (auto split: if_splits)
        then show ?thesis by simp
      next
        assume "t \<in> set (fields_from [] (drop (leading_space s) s))"
        then have "sublist t ([] @ drop (leading_space s) s)" by (rule "1.IH"(2) [OF ne False])
        then have "sublist t s"
          by (simp only: append_Nil) (rule sublist_order.order.trans, assumption, rule sublist_drop)
        then show ?thesis
          by (rule sublist_order.order.trans) simp
      qed
    qed
  qed
qed

lemma sublist_Fields: "t \<in> set (Fields s) \<Longrightarrow> sublist t s"
  unfolding Fields_def using sublist_fields_from [of t "[]" s] by simp


lemma agree_lookup: "agree p p' \<Longrightarrow> \<not> Contains k ''_array_'' \<Longrightarrow> lookup p k = lookup p' k"
  by (simp add: agree_def)

lemma agree_assign: "agree p p' \<Longrightarrow> agree (assign p n v) (assign p' n v)"
  by (simp add: agree_def lookup_assign)

lemma agree_assign_synthesized:
  "agree p p' \<Longrightarrow> Contains n ''_array_'' \<Longrightarrow> Contains n' ''_array_'' \<Longrightarrow>
     agree (assign p n v) (assign p' n' v')"
  by (auto simp: agree_def lookup_assign)

lemma agree_assign_right:
  "Contains n ''_array_'' \<Longrightarrow> agree p (assign p n v)"
  by (auto simp: agree_def lookup_assign)

lemma synthesized_name: "Contains (''_array_'' @ n) ''_array_''"
  by (simp add: Contains_sublist)

lemma agree_getNumberValue:
  "agree p p' \<Longrightarrow> \<not> Contains k ''_array_'' \<Longrightarrow> getNumberValue p k = getNumberValue p' k"
  by (simp add: getNumberValue_def agree_lookup)

lemma agree_getStringValue:
  "agree p p' \<Longrightarrow> \<not> Contains k ''_array_'' \<Longrightarrow> getStringValue p k = getStringValue p' k"
  by (simp add: getStringValue_def agree_lookup)

lemma agree_resolveValue:
  "agree p p' \<Longrightarrow> \<not> Contains k ''_array_'' \<Longrightarrow> resolveValue p k = resolveValue p' k"
  by (simp add: resolveValue_def agree_lookup)

lemma agree_evaluateExpression:
  assumes "agree p p'" and "\<not> Contains e ''_array_''"
  shows "evaluateExpression p e = evaluateExpression p' e"
proof -
  have tok: "\<not> Contains t ''_array_''" if "t \<in> set (Fields e)" for t
    using that by (intro not_Contains_sublist [OF assms(2)] sublist_Fields)
  have n: "getNumberValue p (Fields e ! i) = getNumberValue p' (Fields e ! i)"
    if "i < length (Fields e)" for i
    using that by (intro agree_getNumberValue [OF assms(1)] tok) simp
  have s: "getStringValue p (Fields e ! i) = getStringValue p' (Fields e ! i)"
    if "i < length (Fields e)" for i
    using that by (intro agree_getStringValue [OF assms(1)] tok) simp
  have b: "binary_operands p (Fields e ! 1) (Fields e ! 2) = binary_operands p' (Fields e ! 1) (Fields e ! 2)"
    if len: "length (Fields e) = 3"
  proof -
    have 1: "getNumberValue p (Fields e ! 1) = getNumberValue p' (Fields e ! 1)"
      using len by (intro n) simp
    have 2: "getNumberValue p (Fields e ! 2) = getNumberValue p' (Fields e ! 2)"
      using len by (intro n) simp
    show ?thesis unfolding binary_operands_def 1 2 ..
  qed
  show ?thesis
  proof (cases "length (Fields e) < 2")
    case True
    then show ?thesis by (simp add: evaluateExpression_def)
  next
    case False
    then have 1: "getNumberValue p (Fields e ! 1) = getNumberValue p' (Fields e ! 1)"
      and 2: "getStringValue p (Fields e ! 1) = getStringValue p' (Fields e ! 1)"
      by (simp_all add: n s)
    show ?thesis
    proof (cases "length (Fields e) = 3")
      case True
      with b 1 2 show ?thesis by (simp add: evaluateExpression_def Let_def)
    next
      case False
      with 1 2 show ?thesis by (simp add: evaluateExpression_def Let_def)
    qed
  qed
qed

lemma agree_resolveElements:
  "agree p p' \<Longrightarrow> \<forall>v \<in> set vs. \<not> Contains v ''_array_'' \<Longrightarrow>
     resolveElements p vs = resolveElements p' vs"
proof (induction vs)
  case Nil
  show ?case by simp
next
  case (Cons v vs)
  have "\<not> Contains (TrimSpace v) ''_array_''"
    using Cons.prems(2) by (intro not_Contains_sublist [OF _ sublist_TrimSpace]) simp
  then have 1: "resolveValue p (TrimSpace v) = resolveValue p' (TrimSpace v)"
    by (rule agree_resolveValue [OF Cons.prems(1)])
  have 2: "resolveElements p vs = resolveElements p' vs"
    using Cons.prems by (intro Cons.IH) simp_all
  show ?case
    unfolding resolveElements.simps Let_def 1 2 ..
qed

lemma related_decl_if:
  "(c \<Longrightarrow> related_decl a a') \<Longrightarrow> (\<not> c \<Longrightarrow> related_decl b b') \<Longrightarrow>
     related_decl (if c then a else b) (if c then a' else b')"
  by simp

lemma agree_handleConstant:
  assumes "agree p p'" and "\<not> Contains line ''_array_''"
  shows "related_decl (handleConstant p line) (handleConstant p' line)"
proof -
  let ?parts = "Split (TrimSuffix line '';'') '':=''"
  let ?N = "TrimSpace (?parts ! 0)"
  let ?V = "TrimSpace (?parts ! 1)"
  let ?E = "TrimSuffix (TrimPrefix ?V ''?('') '')''"
  let ?A = "Split (TrimSuffix (TrimPrefix ?V ''['') '']'') '',''"
  have fail: "related_decl (Some e, p) (Some e, p')" for e
    using assms(1) by (simp add: related_decl_def)
  have bind: "related_decl (None, assign p ?N v) (None, assign p' ?N v)" for v
    using assms(1) by (simp add: related_decl_def agree_assign)
  have number: "related_decl
        (case parseNumber ?V of Inl e \<Rightarrow> (Some e, p) | Inr v \<Rightarrow> (None, assign p ?N (IntV v)))
        (case parseNumber ?V of Inl e \<Rightarrow> (Some e, p') | Inr v \<Rightarrow> (None, assign p' ?N (IntV v)))"
    using assms(1) by (simp add: related_decl_def agree_assign split: sum.splits)
  have rest: "related_decl
        (case evaluateExpression p ?E of
           Inl e \<Rightarrow> (Some e, p) | Inr v \<Rightarrow> (None, assign p ?N (IntV v)))
        (case evaluateExpression p' ?E of
           Inl e \<Rightarrow> (Some e, p') | Inr v \<Rightarrow> (None, assign p' ?N (IntV v)))
      \<and> related_decl
        (case resolveElements p ?A of
           Inl e \<Rightarrow> (Some e, p) | Inr array \<Rightarrow> (None, assign p ?N (ArrV array)))
        (case resolveElements p' ?A of
           Inl e \<Rightarrow> (Some e, p') | Inr array \<Rightarrow> (None, assign p' ?N (ArrV array)))
      \<and> related_decl
        (case lookup p ?V of
           None \<Rightarrow> (None, assign p ?N (StrV ?V)) | Some v \<Rightarrow> (None, assign p ?N v))
        (case lookup p' ?V of
           None \<Rightarrow> (None, assign p' ?N (StrV ?V)) | Some v \<Rightarrow> (None, assign p' ?N v))"
    if two: "\<not> length ?parts \<noteq> 2"
  proof -
    from two have "?parts ! 1 \<in> set ?parts" by simp
    then have "sublist (?parts ! 1) (TrimSuffix line '';'')" by (rule sublist_Split)
    then have "sublist (?parts ! 1) line"
      by (rule sublist_order.order.trans) (rule sublist_TrimSuffix)
    then have sV: "sublist ?V line"
      by (rule sublist_order.order.trans [OF sublist_TrimSpace])
    have V: "\<not> Contains ?V ''_array_''" by (rule not_Contains_sublist [OF assms(2) sV])
    have "sublist ?E line"
      by (rule sublist_order.order.trans [OF sublist_TrimSuffix
            sublist_order.order.trans [OF sublist_TrimPrefix sV]])
    then have "\<not> Contains ?E ''_array_''"
      by (rule not_Contains_sublist [OF assms(2)])
    then have e: "evaluateExpression p ?E = evaluateExpression p' ?E"
      by (rule agree_evaluateExpression [OF assms(1)])
    have sI: "sublist (TrimSuffix (TrimPrefix ?V ''['') '']'') line"
      by (rule sublist_order.order.trans [OF sublist_TrimSuffix
            sublist_order.order.trans [OF sublist_TrimPrefix sV]])
    have "\<forall>v \<in> set ?A. \<not> Contains v ''_array_''"
    proof
      fix v
      assume "v \<in> set ?A"
      then have "sublist v (TrimSuffix (TrimPrefix ?V ''['') '']'')" by (rule sublist_Split)
      then have "sublist v line" by (rule sublist_order.order.trans) (rule sI)
      then show "\<not> Contains v ''_array_''" by (rule not_Contains_sublist [OF assms(2)])
    qed
    then have r: "resolveElements p ?A = resolveElements p' ?A"
      by (rule agree_resolveElements [OF assms(1)])
    have l: "lookup p ?V = lookup p' ?V" by (rule agree_lookup [OF assms(1) V])
    show ?thesis
      unfolding e r l
      using assms(1)
      by (simp add: related_decl_def agree_assign split: sum.splits option.splits)
  qed
  show ?thesis
    unfolding handleConstant_def Let_def
    by (intro related_decl_if fail bind number rest [THEN conjunct1]
        rest [THEN conjunct2, THEN conjunct1] rest [THEN conjunct2, THEN conjunct2])
qed

lemma agree_handleKeyValue:
  assumes "agree p p'" and "\<not> Contains line ''_array_''"
  shows "handleKeyValue p output line = handleKeyValue p' output line"
proof (cases "length (SplitN line ''='' 2) = 2")
  case False
  then show ?thesis by (simp add: handleKeyValue_def Let_def)
next
  case True
  then have "SplitN line ''='' 2 ! 1 \<in> set (SplitN line ''='' 2)" by simp
  then have "sublist (SplitN line ''='' 2 ! 1) line" by (rule sublist_SplitN)
  then have "sublist (TrimSpace (SplitN line ''='' 2 ! 1)) line"
    by (rule sublist_order.order.trans [OF sublist_TrimSpace])
  then have "\<not> Contains (TrimSpace (SplitN line ''='' 2 ! 1)) ''_array_''"
    by (rule not_Contains_sublist [OF assms(2)])
  then have "resolveValue p (TrimSpace (SplitN line ''='' 2 ! 1))
      = resolveValue p' (TrimSpace (SplitN line ''='' 2 ! 1))"
    by (rule agree_resolveValue [OF assms(1)])
  then show ?thesis by (simp add: handleKeyValue_def Let_def)
qed


lemma related_if:
  "(c \<Longrightarrow> related a a') \<Longrightarrow> (\<not> c \<Longrightarrow> related b b') \<Longrightarrow>
     related (if c then a else b) (if c then a' else b')"
  by simp

lemma related_processLine:
  assumes "agree p p'" and "\<not> Contains line0 ''_array_''"
  shows "related (processLine p out line0) (processLine p' out line0)"
proof -
  let ?line = "TrimSpace line0"
  let ?inner = "TrimSpace (TrimSuffix (TrimPrefix ?line ''['') '']'')"
  have sl: "sublist ?line line0" by (rule sublist_TrimSpace)
  have L: "\<not> Contains ?line ''_array_''" by (rule not_Contains_sublist [OF assms(2) sl])
  note c = agree_handleConstant [OF assms(1) L, unfolded related_decl_def]
  note k = agree_handleKeyValue [OF assms(1) L, of out]
  have si: "sublist ?inner ?line"
    by (rule sublist_order.order.trans [OF sublist_TrimSpace
          sublist_order.order.trans [OF sublist_TrimSuffix sublist_TrimPrefix]])
  have "\<forall>v \<in> set (Split ?inner '',''). \<not> Contains v ''_array_''"
  proof
    fix v
    assume "v \<in> set (Split ?inner '','')"
    then have "sublist v ?inner" by (rule sublist_Split)
    then have "sublist v ?line" by (rule sublist_order.order.trans) (rule si)
    then show "\<not> Contains v ''_array_''" by (rule not_Contains_sublist [OF L])
  qed
  then have r: "resolveElements p (Split ?inner '','') = resolveElements p' (Split ?inner '','')"
    by (rule agree_resolveElements [OF assms(1)])
  obtain array where a: "resolveElements p' (Split ?inner '','') = Inr array"
    using resolveElements_total by blast
  have arr: "agree (assign p (''_array_'' @ itoa (int (len_variables p))) (ArrV array))
                   (assign p' (''_array_'' @ itoa (int (len_variables p'))) (ArrV array))"
    by (rule agree_assign_synthesized [OF assms(1) synthesized_name synthesized_name])
  have plain: "related (None, p, o1) (None, p', o1)" for o1
    using assms(1) by (simp add: related_def)
  have const: "related (case handleConstant p ?line of (err, q) \<Rightarrow> (err, q, out))
                       (case handleConstant p' ?line of (err, q) \<Rightarrow> (err, q, out))"
    using c by (simp add: related_def case_prod_beta)
  have array: "related
      (case resolveElements p (Split ?inner '','') of
         Inl e \<Rightarrow> (Some e, p, out)
       | Inr array \<Rightarrow>
           (None, assign p (''_array_'' @ itoa (int (len_variables p))) (ArrV array), out))
      (case resolveElements p' (Split ?inner '','') of
         Inl e \<Rightarrow> (Some e, p', out)
       | Inr array \<Rightarrow>
           (None, assign p' (''_array_'' @ itoa (int (len_variables p'))) (ArrV array), out))"
    unfolding r a using arr by (simp only: sum.case related_def fst_conv snd_conv simp_thms)
  have kv: "related (case handleKeyValue p out ?line of (err, o1) \<Rightarrow> (err, p, o1))
                    (case handleKeyValue p' out ?line of (err, o1) \<Rightarrow> (err, p', o1))"
    using assms(1) by (simp add: k related_def case_prod_beta)
  show ?thesis
    unfolding processLine_def Let_def
    by (intro related_if plain const array kv)
qed

lemma related_processLines:
  "agree p p' \<Longrightarrow> \<forall>l \<in> set ls. \<not> Contains l ''_array_'' \<Longrightarrow>
     related (processLines p out ls) (processLines p' out ls)"
proof (induction ls arbitrary: p p' out)
  case Nil
  then show ?case by (simp add: related_def)
next
  case (Cons l ls)
  have l: "\<not> Contains l ''_array_''" using Cons.prems(2) by simp
  note step = related_processLine [OF Cons.prems(1) l, of out]
  obtain e p1 o1 where a: "processLine p out l = (e, p1, o1)" by (cases "processLine p out l")
  obtain e' p1' o1' where b: "processLine p' out l = (e', p1', o1')"
    by (cases "processLine p' out l")
  from step have eq: "e' = e" "agree p1 p1'" "o1' = o1" unfolding a b by (simp_all add: related_def)
  show ?case
  proof (cases e)
    case None
    have "related (processLines p1 o1 ls) (processLines p1' o1 ls)"
      using Cons.prems(2) by (intro Cons.IH [OF eq(2)]) simp
    then show ?thesis by (simp add: a b eq None)
  next
    case (Some err)
    then show ?thesis using eq(2) by (simp add: a b eq related_def)
  qed
qed

lemma bracket_line_shape:
  assumes "HasPrefix line ''[''" and "HasSuffix line '']''"
  shows "line \<noteq> []" and "\<not> HasPrefix line ''//''" and "\<not> HasSuffix line '';''"
proof -
  from assms(1) obtain rest where l: "line = CHR ''['' # rest"
    by (cases line) (auto simp: HasPrefix_def)
  show "line \<noteq> []" by (simp add: l)
  show "\<not> HasPrefix line ''//''" by (simp add: l HasPrefix_def)
  show "\<not> HasSuffix line '';''" using assms(2) by (auto simp: HasSuffix_def)
qed

text \<open>
  Claim C9, as the code has it. A line that is bracket-delimited and whose interior has a
  comma and no equality sign never fails and emits nothing: the output is unchanged, and
  the resolved elements are stored under \<open>_array_<count>\<close>, where the count is the number
  of symbols bound so far. The stored value is not unreachable: a later value token
  spelled \<open>_array_<count>\<close> resolves to it. It has no effect on later lines that do not
  contain the text \<open>_array_\<close>: they succeed or fail alike and produce the same output
  with and without the stored value.
\<close>

theorem anonymous_array_line:
  assumes "HasPrefix (TrimSpace line0) ''[''"
    and "HasSuffix (TrimSpace line0) '']''"
    and "inner = TrimSpace (TrimSuffix (TrimPrefix (TrimSpace line0) ''['') '']'')"
    and "Contains inner '',''"
    and "\<not> Contains inner ''=''"
    and "name = ''_array_'' @ itoa (int (len_variables p))"
  shows "\<exists>array. resolveElements p (Split inner '','') = Inr array
           \<and> processLine p output line0 = (None, assign p name (ArrV array), output)
           \<and> resolveValue (assign p name (ArrV array)) name = Inr (ArrV array)
           \<and> (\<forall>later out. (\<forall>l \<in> set later. \<not> Contains l ''_array_'') \<longrightarrow>
                 fst (processLines (assign p name (ArrV array)) out later)
                   = fst (processLines p out later)
               \<and> snd (snd (processLines (assign p name (ArrV array)) out later))
                   = snd (snd (processLines p out later)))"
proof -
  obtain array where a: "resolveElements p (Split inner '','') = Inr array"
    using resolveElements_total by blast
  note s = bracket_line_shape [OF assms(1,2)]
  have 1: "processLine p output line0 = (None, assign p name (ArrV array), output)"
    using a assms(4,5) s
    by (simp add: processLine_def Let_def assms(1,2) assms(3) [symmetric] assms(6))
  have 2: "resolveValue (assign p name (ArrV array)) name = Inr (ArrV array)"
    by (simp add: resolveValue_def lookup_assign)
  have "Contains name ''_array_''" unfolding assms(6) by (rule synthesized_name)
  then have ag: "agree p (assign p name (ArrV array))" by (rule agree_assign_right)
  have 3: "fst (processLines (assign p name (ArrV array)) out later)
                   = fst (processLines p out later)
               \<and> snd (snd (processLines (assign p name (ArrV array)) out later))
                   = snd (snd (processLines p out later))"
    if "\<forall>l \<in> set later. \<not> Contains l ''_array_''" for later out
    using related_processLines [OF ag that, of out] by (simp add: related_def)
  from a 1 2 3 show ?thesis by blast
qed

text \<open>
  The claim as stated fails: with the array line \<open>[1, 2]\<close> before it, the line
  \<open>k = _array_0\<close> emits the stored array; without the array line it emits the token as
  a quoted string. The stored value has an outward effect on the output.
\<close>

theorem anonymous_array_line_counterexample:
  "processLines NewParser [] [''[1, 2]'', ''k = _array_0'']
     = (None, \<lparr>variables = [(''_array_0'', ArrV [''1'', ''2''])]\<rparr>, ''k = [1, 2]'' @ newline)
   \<and> processLines NewParser [] [''k = _array_0'']
     = (None, NewParser, ''k = '' @ dquote @ ''_array_0'' @ dquote @ newline)"
  by code_simp


theorem anonymous_array_line_witness:
  "HasPrefix (TrimSpace '' [1, 2]'') ''[''
   \<and> HasSuffix (TrimSpace '' [1, 2]'') '']''
   \<and> ''1, 2'' = TrimSpace (TrimSuffix (TrimPrefix (TrimSpace '' [1, 2]'') ''['') '']'')
   \<and> Contains ''1, 2'' '',''
   \<and> \<not> Contains ''1, 2'' ''=''
   \<and> ''_array_0'' = ''_array_'' @ itoa (int (len_variables NewParser))
   \<and> resolveElements NewParser (Split ''1, 2'' '','') = Inr [''1'', ''2'']
   \<and> processLine NewParser ''[s]'' '' [1, 2]''
        = (None, \<lparr>variables = [(''_array_0'', ArrV [''1'', ''2''])]\<rparr>, ''[s]'')
   \<and> resolveValue \<lparr>variables = [(''_array_0'', ArrV [''1'', ''2''])]\<rparr> ''_array_0''
        = Inr (ArrV [''1'', ''2''])
   \<and> \<not> Contains ''k = X'' ''_array_''
   \<and> snd (snd (processLines \<lparr>variables = [(''_array_0'', ArrV [''1'', ''2''])]\<rparr> ''[s]'' [''k = X'']))
        = snd (snd (processLines NewParser ''[s]'' [''k = X'']))"
proof -
  have 1: "HasPrefix (TrimSpace '' [1, 2]'') ''[''" by code_simp
  have 2: "HasSuffix (TrimSpace '' [1, 2]'') '']''" by code_simp
  have 3: "''1, 2'' = TrimSpace (TrimSuffix (TrimPrefix (TrimSpace '' [1, 2]'') ''['') '']'')"
    by code_simp
  have 4: "Contains ''1, 2'' '',''" by code_simp
  have 5: "\<not> Contains ''1, 2'' ''=''" by code_simp
  have 6: "''_array_0'' = ''_array_'' @ itoa (int (len_variables NewParser))" by code_simp
  have 7: "resolveElements NewParser (Split ''1, 2'' '','') = Inr [''1'', ''2'']" by code_simp
  have 8: "\<not> Contains ''k = X'' ''_array_''" by code_simp
  from anonymous_array_line [OF 1 2 3 4 5 6, of "''[s]''"]
  obtain array where a: "resolveElements NewParser (Split ''1, 2'' '','') = Inr array"
    and b: "processLine NewParser ''[s]'' '' [1, 2]''
              = (None, assign NewParser ''_array_0'' (ArrV array), ''[s]'')"
    and c: "resolveValue (assign NewParser ''_array_0'' (ArrV array)) ''_array_0''
              = Inr (ArrV array)"
    and d: "\<And>later out. (\<forall>l \<in> set later. \<not> Contains l ''_array_'') \<Longrightarrow>
              snd (snd (processLines (assign NewParser ''_array_0'' (ArrV array)) out later))
                = snd (snd (processLines NewParser out later))"
    by blast
  from a 7 have e: "array = [''1'', ''2'']" by simp
  have f: "assign NewParser ''_array_0'' (ArrV [''1'', ''2''])
             = \<lparr>variables = [(''_array_0'', ArrV [''1'', ''2''])]\<rparr>"
    by (simp add: assign_def NewParser_def)
  have g: "snd (snd (processLines \<lparr>variables = [(''_array_0'', ArrV [''1'', ''2''])]\<rparr> ''[s]'' [''k = X'']))
        = snd (snd (processLines NewParser ''[s]'' [''k = X'']))"
    using d [of "[''k = X'']" "''[s]''"] 8 unfolding e f by simp
  from b c have "processLine NewParser ''[s]'' '' [1, 2]''
        = (None, \<lparr>variables = [(''_array_0'', ArrV [''1'', ''2''])]\<rparr>, ''[s]'')
   \<and> resolveValue \<lparr>variables = [(''_array_0'', ArrV [''1'', ''2''])]\<rparr> ''_array_0''
        = Inr (ArrV [''1'', ''2''])"
    unfolding e f by simp
  with 1 2 3 4 5 6 7 8 g show ?thesis by blast
qed

end
